theory Spec2Isabelle
  imports Main
begin

section \<open>JavaScript values\<close>

text \<open>
  A JavaScript string is a sequence of UTF-16 code units. A code unit is a natural number
  here, and \<open>isString\<close> says that every unit fits 16 bits. \<open>js\<close> turns an ASCII literal
  of the source into its code units.
\<close>

type_synonym jsstring = "nat list"

definition isString :: "jsstring \<Rightarrow> bool" where
  "isString s = list_all (\<lambda>u. u < 65536) s"

definition js :: "string \<Rightarrow> jsstring" where
  "js = map of_char"

text \<open>
  A call either returns a value or throws. The errors are the ones the sources can raise:
  \<open>URIError\<close> from the URI coding built-ins, \<open>TypeError\<close> from \<open>new URL\<close>, and an
  \<open>Error\<close> with a message from an explicit \<open>throw new Error(...)\<close>.
\<close>

datatype js_error = URIError | TypeError | Error jsstring

datatype 'a outcome = Returned 'a | Threw js_error

section \<open>The action catalog (actionTypes.js)\<close>

text \<open>
  The names imported from \<open>./actionConstants\<close>. Every action type of the file carries
  one of them in its \<open>type\<close> field (\<open>type: typeof APP_ONLINE\<close>).
\<close>

datatype (plugins only: code) action_const =
    REHYDRATE | APP_ONLINE | DEAD_QUEUE | APP_ORIENTATION | DEBUG_FLAG_TOGGLE |
    ACCOUNT_SWITCH | ACCOUNT_REMOVE | LOGIN_SUCCESS | LOGOUT |
    DISMISS_SERVER_PUSH_SETUP_NOTICE | GOT_PUSH_TOKEN | UNACK_PUSH_TOKEN | ACK_PUSH_TOKEN |
    MESSAGE_FETCH_START | MESSAGE_FETCH_ERROR | MESSAGE_FETCH_COMPLETE | REGISTER_START |
    REGISTER_ABORT | REGISTER_COMPLETE | SET_GLOBAL_SETTINGS | DRAFT_UPDATE |
    PRESENCE_RESPONSE | MESSAGE_SEND_START | MESSAGE_SEND_COMPLETE |
    DELETE_OUTBOX_MESSAGE | TOGGLE_OUTBOX_SENDING | EVENT_MESSAGE_DELETE |
    EVENT_USER_GROUP_ADD | EVENT_USER_GROUP_REMOVE | EVENT_USER_GROUP_UPDATE |
    EVENT_USER_GROUP_ADD_MEMBERS | EVENT_USER_GROUP_REMOVE_MEMBERS |
    EVENT_USER_STATUS_UPDATE | EVENT_TYPING_START | EVENT_TYPING_STOP | EVENT_NEW_MESSAGE |
    EVENT_REACTION_ADD | EVENT_REACTION_REMOVE | EVENT_PRESENCE |
    EVENT_UPDATE_GLOBAL_NOTIFICATIONS_SETTINGS | EVENT_UPDATE_MESSAGE |
    EVENT_UPDATE_MESSAGE_FLAGS | EVENT_USER_ADD | CLEAR_TYPING | EVENT_ALERT_WORDS |
    INIT_TOPICS | EVENT_MUTED_TOPICS | EVENT_MUTED_USERS | EVENT_REALM_FILTERS |
    EVENT_USER_REMOVE | EVENT_USER_UPDATE | EVENT_REALM_EMOJI_UPDATE |
    EVENT_UPDATE_DISPLAY_SETTINGS | EVENT_SUBMESSAGE | EVENT_SUBSCRIPTION | EVENT |
    DISMISS_SERVER_COMPAT_NOTICE

text \<open>The imported names, in the order of the import list.\<close>

definition importedConstants :: "action_const list" where
  "importedConstants =
     [REHYDRATE, APP_ONLINE, DEAD_QUEUE, APP_ORIENTATION, DEBUG_FLAG_TOGGLE,
      ACCOUNT_SWITCH, ACCOUNT_REMOVE, LOGIN_SUCCESS, LOGOUT,
      DISMISS_SERVER_PUSH_SETUP_NOTICE, GOT_PUSH_TOKEN, UNACK_PUSH_TOKEN, ACK_PUSH_TOKEN,
      MESSAGE_FETCH_START, MESSAGE_FETCH_ERROR, MESSAGE_FETCH_COMPLETE, REGISTER_START,
      REGISTER_ABORT, REGISTER_COMPLETE, SET_GLOBAL_SETTINGS, DRAFT_UPDATE,
      PRESENCE_RESPONSE, MESSAGE_SEND_START, MESSAGE_SEND_COMPLETE, DELETE_OUTBOX_MESSAGE,
      TOGGLE_OUTBOX_SENDING, EVENT_MESSAGE_DELETE, EVENT_USER_GROUP_ADD,
      EVENT_USER_GROUP_REMOVE, EVENT_USER_GROUP_UPDATE, EVENT_USER_GROUP_ADD_MEMBERS,
      EVENT_USER_GROUP_REMOVE_MEMBERS, EVENT_USER_STATUS_UPDATE, EVENT_TYPING_START,
      EVENT_TYPING_STOP, EVENT_NEW_MESSAGE, EVENT_REACTION_ADD, EVENT_REACTION_REMOVE,
      EVENT_PRESENCE, EVENT_UPDATE_GLOBAL_NOTIFICATIONS_SETTINGS, EVENT_UPDATE_MESSAGE,
      EVENT_UPDATE_MESSAGE_FLAGS, EVENT_USER_ADD, CLEAR_TYPING, EVENT_ALERT_WORDS,
      INIT_TOPICS, EVENT_MUTED_TOPICS, EVENT_MUTED_USERS, EVENT_REALM_FILTERS,
      EVENT_USER_REMOVE, EVENT_USER_UPDATE, EVENT_REALM_EMOJI_UPDATE,
      EVENT_UPDATE_DISPLAY_SETTINGS, EVENT_SUBMESSAGE, EVENT_SUBSCRIPTION, EVENT,
      DISMISS_SERVER_COMPAT_NOTICE]"

text \<open>
  The module \<open>actionConstants.js\<close> that binds each name to its string is not among
  the files verified here, so the binding is a parameter \<open>K\<close> of everything below.
  \<open>sampleConstants\<close> is one binding, each name bound to its own spelling; it serves to
  evaluate the definitions on concrete actions.
\<close>

primrec sampleConstants :: "action_const \<Rightarrow> jsstring" where
  "sampleConstants REHYDRATE = js ''REHYDRATE''"
| "sampleConstants APP_ONLINE = js ''APP_ONLINE''"
| "sampleConstants DEAD_QUEUE = js ''DEAD_QUEUE''"
| "sampleConstants APP_ORIENTATION = js ''APP_ORIENTATION''"
| "sampleConstants DEBUG_FLAG_TOGGLE = js ''DEBUG_FLAG_TOGGLE''"
| "sampleConstants ACCOUNT_SWITCH = js ''ACCOUNT_SWITCH''"
| "sampleConstants ACCOUNT_REMOVE = js ''ACCOUNT_REMOVE''"
| "sampleConstants LOGIN_SUCCESS = js ''LOGIN_SUCCESS''"
| "sampleConstants LOGOUT = js ''LOGOUT''"
| "sampleConstants DISMISS_SERVER_PUSH_SETUP_NOTICE = js ''DISMISS_SERVER_PUSH_SETUP_NOTICE''"
| "sampleConstants GOT_PUSH_TOKEN = js ''GOT_PUSH_TOKEN''"
| "sampleConstants UNACK_PUSH_TOKEN = js ''UNACK_PUSH_TOKEN''"
| "sampleConstants ACK_PUSH_TOKEN = js ''ACK_PUSH_TOKEN''"
| "sampleConstants MESSAGE_FETCH_START = js ''MESSAGE_FETCH_START''"
| "sampleConstants MESSAGE_FETCH_ERROR = js ''MESSAGE_FETCH_ERROR''"
| "sampleConstants MESSAGE_FETCH_COMPLETE = js ''MESSAGE_FETCH_COMPLETE''"
| "sampleConstants REGISTER_START = js ''REGISTER_START''"
| "sampleConstants REGISTER_ABORT = js ''REGISTER_ABORT''"
| "sampleConstants REGISTER_COMPLETE = js ''REGISTER_COMPLETE''"
| "sampleConstants SET_GLOBAL_SETTINGS = js ''SET_GLOBAL_SETTINGS''"
| "sampleConstants DRAFT_UPDATE = js ''DRAFT_UPDATE''"
| "sampleConstants PRESENCE_RESPONSE = js ''PRESENCE_RESPONSE''"
| "sampleConstants MESSAGE_SEND_START = js ''MESSAGE_SEND_START''"
| "sampleConstants MESSAGE_SEND_COMPLETE = js ''MESSAGE_SEND_COMPLETE''"
| "sampleConstants DELETE_OUTBOX_MESSAGE = js ''DELETE_OUTBOX_MESSAGE''"
| "sampleConstants TOGGLE_OUTBOX_SENDING = js ''TOGGLE_OUTBOX_SENDING''"
| "sampleConstants EVENT_MESSAGE_DELETE = js ''EVENT_MESSAGE_DELETE''"
| "sampleConstants EVENT_USER_GROUP_ADD = js ''EVENT_USER_GROUP_ADD''"
| "sampleConstants EVENT_USER_GROUP_REMOVE = js ''EVENT_USER_GROUP_REMOVE''"
| "sampleConstants EVENT_USER_GROUP_UPDATE = js ''EVENT_USER_GROUP_UPDATE''"
| "sampleConstants EVENT_USER_GROUP_ADD_MEMBERS = js ''EVENT_USER_GROUP_ADD_MEMBERS''"
| "sampleConstants EVENT_USER_GROUP_REMOVE_MEMBERS = js ''EVENT_USER_GROUP_REMOVE_MEMBERS''"
| "sampleConstants EVENT_USER_STATUS_UPDATE = js ''EVENT_USER_STATUS_UPDATE''"
| "sampleConstants EVENT_TYPING_START = js ''EVENT_TYPING_START''"
| "sampleConstants EVENT_TYPING_STOP = js ''EVENT_TYPING_STOP''"
| "sampleConstants EVENT_NEW_MESSAGE = js ''EVENT_NEW_MESSAGE''"
| "sampleConstants EVENT_REACTION_ADD = js ''EVENT_REACTION_ADD''"
| "sampleConstants EVENT_REACTION_REMOVE = js ''EVENT_REACTION_REMOVE''"
| "sampleConstants EVENT_PRESENCE = js ''EVENT_PRESENCE''"
| "sampleConstants EVENT_UPDATE_GLOBAL_NOTIFICATIONS_SETTINGS = js ''EVENT_UPDATE_GLOBAL_NOTIFICATIONS_SETTINGS''"
| "sampleConstants EVENT_UPDATE_MESSAGE = js ''EVENT_UPDATE_MESSAGE''"
| "sampleConstants EVENT_UPDATE_MESSAGE_FLAGS = js ''EVENT_UPDATE_MESSAGE_FLAGS''"
| "sampleConstants EVENT_USER_ADD = js ''EVENT_USER_ADD''"
| "sampleConstants CLEAR_TYPING = js ''CLEAR_TYPING''"
| "sampleConstants EVENT_ALERT_WORDS = js ''EVENT_ALERT_WORDS''"
| "sampleConstants INIT_TOPICS = js ''INIT_TOPICS''"
| "sampleConstants EVENT_MUTED_TOPICS = js ''EVENT_MUTED_TOPICS''"
| "sampleConstants EVENT_MUTED_USERS = js ''EVENT_MUTED_USERS''"
| "sampleConstants EVENT_REALM_FILTERS = js ''EVENT_REALM_FILTERS''"
| "sampleConstants EVENT_USER_REMOVE = js ''EVENT_USER_REMOVE''"
| "sampleConstants EVENT_USER_UPDATE = js ''EVENT_USER_UPDATE''"
| "sampleConstants EVENT_REALM_EMOJI_UPDATE = js ''EVENT_REALM_EMOJI_UPDATE''"
| "sampleConstants EVENT_UPDATE_DISPLAY_SETTINGS = js ''EVENT_UPDATE_DISPLAY_SETTINGS''"
| "sampleConstants EVENT_SUBMESSAGE = js ''EVENT_SUBMESSAGE''"
| "sampleConstants EVENT_SUBSCRIPTION = js ''EVENT_SUBSCRIPTION''"
| "sampleConstants EVENT = js ''EVENT''"
| "sampleConstants DISMISS_SERVER_COMPAT_NOTICE = js ''DISMISS_SERVER_COMPAT_NOTICE''"

text \<open>An action object: the \<open>type\<close> field and the rest of the object.\<close>

record 'p action =
  type :: jsstring
  payload :: 'p

subsection \<open>The unions of action types\<close>

text \<open>
  A Flow union of action types is represented by the discriminants of its members, in
  the order of the source. \<open>EventSubscriptionAction\<close> has five members that share the
  discriminant \<open>EVENT_SUBSCRIPTION\<close> and differ in \<open>op\<close>.
\<close>

definition EventReactionAction :: "action_const list" where
  "EventReactionAction = [EVENT_REACTION_ADD, EVENT_REACTION_REMOVE]"

definition EventSubscriptionAction :: "action_const list" where
  "EventSubscriptionAction =
     [EVENT_SUBSCRIPTION, EVENT_SUBSCRIPTION, EVENT_SUBSCRIPTION, EVENT_SUBSCRIPTION,
      EVENT_SUBSCRIPTION]"

definition EventTypingAction :: "action_const list" where
  "EventTypingAction = [EVENT_TYPING_START, EVENT_TYPING_STOP]"

definition EventUserAction :: "action_const list" where
  "EventUserAction = [EVENT_USER_ADD, EVENT_USER_REMOVE, EVENT_USER_UPDATE]"

definition EventUserGroupAction :: "action_const list" where
  "EventUserGroupAction =
     [EVENT_USER_GROUP_ADD, EVENT_USER_GROUP_REMOVE, EVENT_USER_GROUP_UPDATE,
      EVENT_USER_GROUP_ADD_MEMBERS, EVENT_USER_GROUP_REMOVE_MEMBERS]"

definition EventAction :: "action_const list" where
  "EventAction =
     [EVENT, EVENT_ALERT_WORDS, EVENT_MESSAGE_DELETE, EVENT_MUTED_TOPICS, EVENT_MUTED_USERS,
      EVENT_NEW_MESSAGE, EVENT_SUBMESSAGE, EVENT_PRESENCE, EVENT_REALM_EMOJI_UPDATE,
      EVENT_REALM_FILTERS, EVENT_UPDATE_GLOBAL_NOTIFICATIONS_SETTINGS,
      EVENT_UPDATE_DISPLAY_SETTINGS, EVENT_UPDATE_MESSAGE, EVENT_UPDATE_MESSAGE_FLAGS]
     @ EventReactionAction @ EventSubscriptionAction @ EventTypingAction @ EventUserAction
     @ EventUserGroupAction @ [EVENT_USER_STATUS_UPDATE]"

definition AccountAction :: "action_const list" where
  "AccountAction =
     [ACCOUNT_SWITCH, ACCOUNT_REMOVE, LOGIN_SUCCESS, LOGOUT, DISMISS_SERVER_PUSH_SETUP_NOTICE]"

definition LoadingAction :: "action_const list" where
  "LoadingAction = [DEAD_QUEUE, REGISTER_START, REGISTER_ABORT, REGISTER_COMPLETE]"

definition MessageAction :: "action_const list" where
  "MessageAction = [MESSAGE_FETCH_START, MESSAGE_FETCH_ERROR, MESSAGE_FETCH_COMPLETE]"

definition OutboxAction :: "action_const list" where
  "OutboxAction = [MESSAGE_SEND_START, MESSAGE_SEND_COMPLETE, DELETE_OUTBOX_MESSAGE]"

definition PerAccountAction :: "action_const list" where
  "PerAccountAction =
     EventAction @ LoadingAction @ MessageAction @ OutboxAction
     @ [DRAFT_UPDATE, PRESENCE_RESPONSE, INIT_TOPICS, CLEAR_TYPING,
        DISMISS_SERVER_COMPAT_NOTICE, DISMISS_SERVER_PUSH_SETUP_NOTICE, TOGGLE_OUTBOX_SENDING]"

definition AllAccountsAction :: "action_const list" where
  "AllAccountsAction = [REHYDRATE] @ AccountAction @ [ACK_PUSH_TOKEN, UNACK_PUSH_TOKEN]"

definition AccountIndependentAction :: "action_const list" where
  "AccountIndependentAction =
     [SET_GLOBAL_SETTINGS, APP_ONLINE, APP_ORIENTATION, GOT_PUSH_TOKEN, DEBUG_FLAG_TOGGLE]"

definition Action :: "action_const list" where
  "Action = PerAccountAction @ AllAccountsAction @ AccountIndependentAction"

definition PerAccountApplicableAction :: "action_const list" where
  "PerAccountApplicableAction = PerAccountAction @ AllAccountsAction"

subsection \<open>isPerAccountApplicableAction\<close>

text \<open>
  The \<open>switch\<close> has three groups of case labels and a default. \<open>caseClauses\<close> lists the
  labels in the order of the source, each with the group it falls through to.
  A \<open>switch\<close> selects the first clause whose label is strictly equal to the value
  switched on, and the default when there is none: that is \<open>switchArm\<close>.
\<close>

datatype arm = PerAccountArm | AllAccountsArm | AccountIndependentArm | DefaultArm

definition perAccountCases :: "action_const list" where
  "perAccountCases =
     [EVENT, EVENT_ALERT_WORDS, EVENT_MESSAGE_DELETE, EVENT_MUTED_TOPICS, EVENT_MUTED_USERS,
      EVENT_NEW_MESSAGE, EVENT_PRESENCE, EVENT_REACTION_ADD, EVENT_REACTION_REMOVE,
      EVENT_REALM_EMOJI_UPDATE, EVENT_REALM_FILTERS, EVENT_SUBMESSAGE, EVENT_SUBSCRIPTION,
      EVENT_TYPING_START, EVENT_TYPING_STOP, EVENT_UPDATE_DISPLAY_SETTINGS,
      EVENT_UPDATE_GLOBAL_NOTIFICATIONS_SETTINGS, EVENT_UPDATE_MESSAGE,
      EVENT_UPDATE_MESSAGE_FLAGS, EVENT_USER_ADD, EVENT_USER_GROUP_ADD,
      EVENT_USER_GROUP_ADD_MEMBERS, EVENT_USER_GROUP_REMOVE, EVENT_USER_GROUP_REMOVE_MEMBERS,
      EVENT_USER_GROUP_UPDATE, EVENT_USER_REMOVE, EVENT_USER_STATUS_UPDATE, EVENT_USER_UPDATE,
      DEAD_QUEUE, REGISTER_START, REGISTER_ABORT, REGISTER_COMPLETE, MESSAGE_FETCH_COMPLETE,
      MESSAGE_FETCH_ERROR, MESSAGE_FETCH_START, MESSAGE_SEND_COMPLETE, MESSAGE_SEND_START,
      DELETE_OUTBOX_MESSAGE, DRAFT_UPDATE, PRESENCE_RESPONSE, INIT_TOPICS, CLEAR_TYPING,
      DISMISS_SERVER_COMPAT_NOTICE, DISMISS_SERVER_PUSH_SETUP_NOTICE, TOGGLE_OUTBOX_SENDING]"

definition allAccountsCases :: "action_const list" where
  "allAccountsCases =
     [REHYDRATE, ACCOUNT_SWITCH, ACCOUNT_REMOVE, LOGIN_SUCCESS, LOGOUT, ACK_PUSH_TOKEN,
      UNACK_PUSH_TOKEN]"

definition accountIndependentCases :: "action_const list" where
  "accountIndependentCases =
     [SET_GLOBAL_SETTINGS, APP_ONLINE, APP_ORIENTATION, GOT_PUSH_TOKEN, DEBUG_FLAG_TOGGLE]"

definition caseClauses :: "(action_const \<times> arm) list" where
  "caseClauses =
     map (\<lambda>c. (c, PerAccountArm)) perAccountCases
     @ map (\<lambda>c. (c, AllAccountsArm)) allAccountsCases
     @ map (\<lambda>c. (c, AccountIndependentArm)) accountIndependentCases"

definition switchArm :: "(action_const \<Rightarrow> jsstring) \<Rightarrow> jsstring \<Rightarrow> arm" where
  "switchArm K t =
     (case find (\<lambda>cl. K (fst cl) = t) caseClauses of
        Some cl \<Rightarrow> snd cl
      | None \<Rightarrow> DefaultArm)"

text \<open>
  \<open>ensureUnreachable\<close> is imported from \<open>./generics\<close>, which is not among the files
  verified here either. It is a parameter: a call on the action in a program state that
  returns or throws and leaves a state behind. The classifier itself touches no state, so
  it is written over an arbitrary state type and passes the state along.
  The three groups return at once; the default calls \<open>ensureUnreachable(action)\<close> and
  then executes \<open>return false\<close>.
\<close>

definition isPerAccountApplicableAction ::
  "(action_const \<Rightarrow> jsstring) \<Rightarrow> ('p action \<Rightarrow> 's \<Rightarrow> unit outcome \<times> 's)
     \<Rightarrow> 'p action \<Rightarrow> 's \<Rightarrow> bool outcome \<times> 's" where
  "isPerAccountApplicableAction K ensureUnreachable action s =
     (case switchArm K (type action) of
        PerAccountArm \<Rightarrow> (Returned True, s)
      | AllAccountsArm \<Rightarrow> (Returned True, s)
      | AccountIndependentArm \<Rightarrow> (Returned False, s)
      | DefaultArm \<Rightarrow>
          (case ensureUnreachable action s of
             (Threw e, s') \<Rightarrow> (Threw e, s')
           | (Returned u, s') \<Rightarrow> (Returned False, s')))"

text \<open>
  Two behaviours of \<open>ensureUnreachable\<close>: a function with an empty body, which returns
  and changes nothing, and one that throws.
\<close>

definition ensureUnreachable_noop :: "'p action \<Rightarrow> 's \<Rightarrow> unit outcome \<times> 's" where
  "ensureUnreachable_noop action s = (Returned (), s)"

definition ensureUnreachable_throwing :: "'p action \<Rightarrow> 's \<Rightarrow> unit outcome \<times> 's" where
  "ensureUnreachable_throwing action s = (Threw (Error (js ''unreachable'')), s)"


text \<open>
  Sample actions under \<open>sampleConstants\<close>: one for each name of the catalog, and one whose
  \<open>type\<close> is no constant's value.
\<close>

definition sampleAction :: "action_const \<Rightarrow> unit action" where
  "sampleAction c = \<lparr>type = sampleConstants c, payload = ()\<rparr>"

definition madeUpAction :: "unit action" where
  "madeUpAction = \<lparr>type = js ''made-up-future-event'', payload = ()\<rparr>"

section \<open>Narrow links (utils/internalLinks.js)\<close>

text \<open>
  \<open>String.prototype.split\<close> with a string separator: the pieces between the
  occurrences of the separator, found from left to right without overlap. With the empty
  separator the pieces are the single code units, and the empty string has none.
\<close>

function splitFrom :: "jsstring \<Rightarrow> jsstring \<Rightarrow> jsstring \<Rightarrow> jsstring list" where
  "splitFrom sep cur [] = [cur]"
| "splitFrom sep cur (u # us) =
     (if sep \<noteq> [] \<and> take (length sep) (u # us) = sep
      then cur # splitFrom sep [] (drop (length sep) (u # us))
      else splitFrom sep (cur @ [u]) us)"
  by pat_completeness auto
termination
  by (relation "measure (\<lambda>(sep, cur, s). length s)") auto

definition split :: "jsstring \<Rightarrow> jsstring \<Rightarrow> jsstring list" where
  "split s sep = (if sep = [] then map (\<lambda>u. [u]) s else splitFrom sep [] s)"

text \<open>\<open>Array.prototype.pop\<close>: the last element, \<open>undefined\<close> on the empty array.\<close>

definition pop :: "'a list \<Rightarrow> 'a option" where
  "pop xs = (if xs = [] then None else Some (last xs))"

text \<open>
  The fields of a \<open>URL\<close> object that the file reads; \<open>realm.toString()\<close> is \<open>href\<close>.
  The constructor \<open>new URL(url, base)\<close> belongs to the platform: it is a parameter
  \<open>newURL\<close> that returns the resolved URL or throws.
\<close>

record url =
  href :: jsstring
  origin :: jsstring
  pathname :: jsstring
  search :: jsstring
  hash :: jsstring

definition getPathsFromUrl :: "jsstring \<Rightarrow> url \<Rightarrow> jsstring list outcome" where
  "getPathsFromUrl url realm =
     (case pop (split url (href realm)) of
        None \<Rightarrow> Threw TypeError
      | Some afterRealm \<Rightarrow>
          (case pop (split afterRealm (js ''#narrow/'')) of
             None \<Rightarrow> Threw TypeError
           | Some afterNarrow \<Rightarrow>
               (let paths = split afterNarrow (js ''/'') in
                if length paths > 0 \<and> paths ! (length paths - 1) = []
                then Returned (butlast paths)
                else Returned paths)))"

text \<open>
  A regular expression \<open>/^lit/i\<close> with an ASCII literal tests for a prefix up to the
  case of ASCII letters.
\<close>

definition asciiLower :: "nat \<Rightarrow> nat" where
  "asciiLower u = (if 65 \<le> u \<and> u \<le> 90 then u + 32 else u)"

definition startsWithIgnoreCase :: "jsstring \<Rightarrow> jsstring \<Rightarrow> bool" where
  "startsWithIgnoreCase lit s = (map asciiLower (take (length lit) s) = lit)"

definition isInternalLink :: "(jsstring \<Rightarrow> url \<Rightarrow> url outcome) \<Rightarrow> jsstring \<Rightarrow> url \<Rightarrow> bool outcome" where
  "isInternalLink newURL url realm =
     (case newURL url realm of
        Threw e \<Rightarrow> Threw e
      | Returned resolved \<Rightarrow>
          Returned (origin resolved = origin realm
                    \<and> pathname resolved = js ''/''
                    \<and> search resolved = []
                    \<and> startsWithIgnoreCase (js ''#narrow/'') (hash resolved)))"

text \<open>\<open>String.prototype.includes\<close> (the name is a keyword here).\<close>

fun includes_str :: "jsstring \<Rightarrow> jsstring \<Rightarrow> bool" where
  "includes_str [] sub = (sub = [])"
| "includes_str (u # us) sub = (take (length sub) (u # us) = sub \<or> includes_str us sub)"

definition isMessageLink :: "(jsstring \<Rightarrow> url \<Rightarrow> url outcome) \<Rightarrow> jsstring \<Rightarrow> url \<Rightarrow> bool outcome" where
  "isMessageLink newURL url realm =
     (case isInternalLink newURL url realm of
        Threw e \<Rightarrow> Threw e
      | Returned False \<Rightarrow> Returned False
      | Returned True \<Rightarrow> Returned (includes_str url (js ''near'')))"

datatype LinkType = external | home | pm | topic | stream | special

definition getLinkType :: "(jsstring \<Rightarrow> url \<Rightarrow> url outcome) \<Rightarrow> jsstring \<Rightarrow> url \<Rightarrow> LinkType outcome" where
  "getLinkType newURL url realm =
     (case isInternalLink newURL url realm of
        Threw e \<Rightarrow> Threw e
      | Returned False \<Rightarrow> Returned external
      | Returned True \<Rightarrow>
          (case getPathsFromUrl url realm of
             Threw e \<Rightarrow> Threw e
           | Returned paths \<Rightarrow>
               if (length paths = 2 \<and> paths ! 0 = js ''pm-with'')
                  \<or> (length paths = 4 \<and> paths ! 0 = js ''pm-with'' \<and> paths ! 2 = js ''near'')
               then Returned pm
               else if (length paths = 4 \<or> length paths = 6)
                  \<and> paths ! 0 = js ''stream''
                  \<and> (paths ! 2 = js ''subject'' \<or> paths ! 2 = js ''topic'')
               then Returned topic
               else if length paths = 2 \<and> paths ! 0 = js ''stream''
               then Returned stream
               else if length paths = 2 \<and> paths ! 0 = js ''is''
                  \<and> (startsWithIgnoreCase (js ''private'') (paths ! 1)
                       \<or> startsWithIgnoreCase (js ''starred'') (paths ! 1)
                       \<or> startsWithIgnoreCase (js ''mentioned'') (paths ! 1))
               then Returned special
               else Returned home))"

text \<open>
  \<open>Array.prototype.lastIndexOf\<close> (\<open>-1\<close> when absent) and indexing, which yields
  \<open>undefined\<close> out of range.
\<close>

fun lastIndexOf :: "'a list \<Rightarrow> 'a \<Rightarrow> int" where
  "lastIndexOf [] x = -1"
| "lastIndexOf (y # ys) x =
     (let i = lastIndexOf ys x in
      if i \<noteq> -1 then i + 1 else if y = x then 0 else -1)"

definition index :: "'a list \<Rightarrow> int \<Rightarrow> 'a option" where
  "index xs i = (if 0 \<le> i \<and> i < int (length xs) then Some (xs ! nat i) else None)"

text \<open>
  The numbers \<open>parseInt\<close> can return; \<open>parseInt\<close> itself is a built-in and a
  parameter, applied to a string or \<open>undefined\<close> and the radix.
\<close>

datatype jsnumber = NaN | Num int

definition getMessageIdFromLink ::
  "(jsstring \<Rightarrow> url \<Rightarrow> url outcome) \<Rightarrow> (jsstring option \<Rightarrow> int \<Rightarrow> jsnumber)
     \<Rightarrow> jsstring \<Rightarrow> url \<Rightarrow> jsnumber outcome" where
  "getMessageIdFromLink newURL parseInt url realm =
     (case getPathsFromUrl url realm of
        Threw e \<Rightarrow> Threw e
      | Returned paths \<Rightarrow>
          (case isMessageLink newURL url realm of
             Threw e \<Rightarrow> Threw e
           | Returned True \<Rightarrow>
               Returned (parseInt (index paths (lastIndexOf paths (js ''near'') + 1)) 10)
           | Returned False \<Rightarrow> Returned (Num 0)))"

subsection \<open>The built-ins encodeURIComponent and decodeURIComponent\<close>

text \<open>
  The two built-ins are modelled after the abstract operations \<open>Encode\<close> and \<open>Decode\<close>
  of ECMA-262 (section 19.2.6), on code units.
\<close>

definition isLeadingSurrogate :: "nat \<Rightarrow> bool" where
  "isLeadingSurrogate u = (0xD800 \<le> u \<and> u \<le> 0xDBFF)"

definition isTrailingSurrogate :: "nat \<Rightarrow> bool" where
  "isTrailingSurrogate u = (0xDC00 \<le> u \<and> u \<le> 0xDFFF)"

text \<open>
  \<open>String.prototype.isWellFormed\<close>: every code unit fits 16 bits, and every surrogate is
  half of a pair, a leading one followed by a trailing one.
\<close>

fun isWellFormed :: "jsstring \<Rightarrow> bool" where
  "isWellFormed [] = True"
| "isWellFormed [c] = (c < 65536 \<and> \<not> isLeadingSurrogate c \<and> \<not> isTrailingSurrogate c)"
| "isWellFormed (c # d # rest) =
     (c < 65536 \<and>
      (if isLeadingSurrogate c then isTrailingSurrogate d \<and> isWellFormed rest
       else \<not> isTrailingSurrogate c \<and> isWellFormed (d # rest)))"

text \<open>The characters \<open>encodeURIComponent\<close> leaves alone: letters, digits and \<open>-_.!~*'()\<close>.\<close>

definition uriUnescaped :: "nat \<Rightarrow> bool" where
  "uriUnescaped c =
     ((65 \<le> c \<and> c \<le> 90) \<or> (97 \<le> c \<and> c \<le> 122) \<or> (48 \<le> c \<and> c \<le> 57)
      \<or> c \<in> set (js ''-_.!~*()'') \<or> c = 39)"

definition surrogatePairToCodePoint :: "nat \<Rightarrow> nat \<Rightarrow> nat" where
  "surrogatePairToCodePoint lead trail = (lead - 0xD800) * 0x400 + (trail - 0xDC00) + 0x10000"

definition utf8Encode :: "nat \<Rightarrow> nat list" where
  "utf8Encode cp =
     (if cp < 0x80 then [cp]
      else if cp < 0x800 then [0xC0 + cp div 64, 0x80 + cp mod 64]
      else if cp < 0x10000 then
        [0xE0 + cp div 4096, 0x80 + (cp div 64) mod 64, 0x80 + cp mod 64]
      else
        [0xF0 + cp div 262144, 0x80 + (cp div 4096) mod 64, 0x80 + (cp div 64) mod 64,
         0x80 + cp mod 64])"

definition hexDigit :: "nat \<Rightarrow> nat" where
  "hexDigit d = (if d < 10 then 48 + d else 55 + d)"

definition percentEncode :: "nat \<Rightarrow> jsstring" where
  "percentEncode octet = [37, hexDigit (octet div 16), hexDigit (octet mod 16)]"

definition prepend :: "jsstring \<Rightarrow> jsstring outcome \<Rightarrow> jsstring outcome" where
  "prepend chunk r = (case r of Threw e \<Rightarrow> Threw e | Returned s \<Rightarrow> Returned (chunk @ s))"

fun encodeURIComponent :: "jsstring \<Rightarrow> jsstring outcome" where
  "encodeURIComponent [] = Returned []"
| "encodeURIComponent [c] =
     (if uriUnescaped c then Returned [c]
      else if isLeadingSurrogate c \<or> isTrailingSurrogate c then Threw URIError
      else Returned (concat (map percentEncode (utf8Encode c))))"
| "encodeURIComponent (c # d # rest) =
     (if uriUnescaped c then prepend [c] (encodeURIComponent (d # rest))
      else if isTrailingSurrogate c then Threw URIError
      else if isLeadingSurrogate c then
        (if isTrailingSurrogate d
         then prepend (concat (map percentEncode (utf8Encode (surrogatePairToCodePoint c d))))
                (encodeURIComponent rest)
         else Threw URIError)
      else prepend (concat (map percentEncode (utf8Encode c))) (encodeURIComponent (d # rest)))"

definition hexValue :: "nat \<Rightarrow> nat option" where
  "hexValue c =
     (if 48 \<le> c \<and> c \<le> 57 then Some (c - 48)
      else if 65 \<le> c \<and> c \<le> 70 then Some (c - 55)
      else if 97 \<le> c \<and> c \<le> 102 then Some (c - 87)
      else None)"

definition parseHexOctet :: "nat \<Rightarrow> nat \<Rightarrow> nat option" where
  "parseHexOctet h1 h2 =
     (case hexValue h1 of
        None \<Rightarrow> None
      | Some a \<Rightarrow> (case hexValue h2 of None \<Rightarrow> None | Some b \<Rightarrow> Some (16 * a + b)))"

text \<open>The number of leading 1 bits of an octet; 5 stands for five or more.\<close>

definition leadingOnes :: "nat \<Rightarrow> nat" where
  "leadingOnes b =
     (if b < 0x80 then 0 else if b < 0xC0 then 1 else if b < 0xE0 then 2
      else if b < 0xF0 then 3 else if b < 0xF8 then 4 else 5)"

text \<open>A run of escapes \<open>%XX\<close>, as the octets they denote.\<close>

fun parseEscapes :: "jsstring \<Rightarrow> nat list option" where
  "parseEscapes [] = Some []"
| "parseEscapes (p # h1 # h2 # rest) =
     (if p = 37 then
        (case parseHexOctet h1 h2 of
           None \<Rightarrow> None
         | Some b \<Rightarrow> (case parseEscapes rest of None \<Rightarrow> None | Some bs \<Rightarrow> Some (b # bs)))
      else None)"
| "parseEscapes rest = None"

text \<open>
  The code point of a multi-octet UTF-8 sequence, if the sequence is valid: continuation
  octets are \<open>10xxxxxx\<close>, the encoding is the shortest one, and the value is neither a
  surrogate nor beyond \<open>0x10FFFF\<close>.
\<close>

definition isContinuation :: "nat \<Rightarrow> bool" where
  "isContinuation b = (0x80 \<le> b \<and> b < 0xC0)"

fun utf8Decode :: "nat list \<Rightarrow> nat option" where
  "utf8Decode [b1, b2] =
     (let v = (b1 - 0xC0) * 64 + (b2 - 0x80) in
      if isContinuation b2 \<and> 0x80 \<le> v then Some v else None)"
| "utf8Decode [b1, b2, b3] =
     (let v = (b1 - 0xE0) * 4096 + (b2 - 0x80) * 64 + (b3 - 0x80) in
      if isContinuation b2 \<and> isContinuation b3 \<and> 0x800 \<le> v
         \<and> \<not> (0xD800 \<le> v \<and> v \<le> 0xDFFF)
      then Some v else None)"
| "utf8Decode [b1, b2, b3, b4] =
     (let v = (b1 - 0xF0) * 262144 + (b2 - 0x80) * 4096 + (b3 - 0x80) * 64 + (b4 - 0x80) in
      if isContinuation b2 \<and> isContinuation b3 \<and> isContinuation b4
         \<and> 0x10000 \<le> v \<and> v \<le> 0x10FFFF
      then Some v else None)"
| "utf8Decode octets = None"

definition utf16Encode :: "nat \<Rightarrow> jsstring" where
  "utf16Encode cp =
     (if cp < 0x10000 then [cp]
      else [0xD800 + (cp - 0x10000) div 0x400, 0xDC00 + (cp - 0x10000) mod 0x400])"

function decodeURIComponent :: "jsstring \<Rightarrow> jsstring outcome" where
  "decodeURIComponent [] = Returned []"
| "decodeURIComponent (c # rest) =
     (if c \<noteq> 37 then prepend [c] (decodeURIComponent rest)
      else if length rest < 2 then Threw URIError
      else
        (case parseHexOctet (rest ! 0) (rest ! 1) of
           None \<Rightarrow> Threw URIError
         | Some b \<Rightarrow>
             if leadingOnes b = 0 then prepend [b] (decodeURIComponent (drop 2 rest))
             else if leadingOnes b = 1 \<or> leadingOnes b > 4 then Threw URIError
             else if length (drop 2 rest) < 3 * (leadingOnes b - 1) then Threw URIError
             else
               (case parseEscapes (take (3 * (leadingOnes b - 1)) (drop 2 rest)) of
                  None \<Rightarrow> Threw URIError
                | Some octets \<Rightarrow>
                    (case utf8Decode (b # octets) of
                       None \<Rightarrow> Threw URIError
                     | Some v \<Rightarrow>
                         prepend (utf16Encode v)
                           (decodeURIComponent
                              (drop (3 * (leadingOnes b - 1)) (drop 2 rest)))))))"
  by pat_completeness auto
termination
  by (relation "measure length") auto

subsection \<open>encodeHashComponent and decodeHashComponent\<close>

definition hashReplacements :: "(jsstring \<times> jsstring) list" where
  "hashReplacements =
     [(js ''%'', js ''.''), (js ''('', js ''.28''), (js '')'', js ''.29''), (js ''.'', js ''.2E'')]"

text \<open>
  \<open>s.replace(/[%().]/g, f)\<close> replaces each code unit of the class by \<open>f\<close> of the
  one-unit string, and \<open>s.replace(/\./g, '%')\<close> each full stop by a percent sign.
\<close>

definition replaceEach :: "(nat \<Rightarrow> bool) \<Rightarrow> (jsstring \<Rightarrow> jsstring) \<Rightarrow> jsstring \<Rightarrow> jsstring" where
  "replaceEach matches f s = concat (map (\<lambda>c. if matches c then f [c] else [c]) s)"

definition encodeHashComponent :: "jsstring \<Rightarrow> jsstring outcome" where
  "encodeHashComponent string =
     (case encodeURIComponent string of
        Threw e \<Rightarrow> Threw e
      | Returned encoded \<Rightarrow>
          Returned (replaceEach (\<lambda>c. c \<in> set (js ''%().''))
                      (\<lambda>matched. case map_of hashReplacements matched of
                                    Some r \<Rightarrow> r | None \<Rightarrow> [])
                      encoded))"

text \<open>
  \<open>decodeHashComponent\<close> catches the exception of \<open>decodeURIComponent\<close> only to record a
  breadcrumb and throws it again.
\<close>

definition decodeHashComponent :: "jsstring \<Rightarrow> jsstring outcome" where
  "decodeHashComponent string =
     (case decodeURIComponent (replaceEach (\<lambda>c. c = 46) (\<lambda>matched. js ''%'') string) of
        Threw err \<Rightarrow> Threw err
      | Returned decoded \<Rightarrow> Returned decoded)"

section \<open>The HTML of the message list (webview/html/messageListElementHtml.js)\<close>

text \<open>
  A message-list element: its \<open>type\<close> field (the field is named \<open>element_type\<close> here,
  \<open>type\<close> being the field of an action) and the rest of the object.
\<close>

record 'p messageListElement =
  element_type :: jsstring
  element_rest :: 'p

text \<open>
  The renderers \<open>time\<close>, \<open>header\<close> and \<open>message\<close> come from modules that are not part of
  the files verified here, and so does \<open>ensureUnreachable\<close>; they are parameters, each a
  call that returns or throws. The callback of \<open>map\<close> is \<open>elementHtml\<close>: the
  \<open>switch\<close> on \<open>element.type\<close>, whose default calls \<open>ensureUnreachable(element)\<close>
  and then throws an \<open>Error\<close> that quotes the type.
\<close>

definition elementHtml ::
  "('p messageListElement \<Rightarrow> jsstring outcome)
     \<Rightarrow> ('b \<Rightarrow> 'p messageListElement \<Rightarrow> jsstring outcome)
     \<Rightarrow> ('b \<Rightarrow> 'p messageListElement \<Rightarrow> 'g \<Rightarrow> jsstring outcome)
     \<Rightarrow> ('p messageListElement \<Rightarrow> unit outcome)
     \<Rightarrow> 'b \<Rightarrow> 'g \<Rightarrow> 'p messageListElement \<Rightarrow> jsstring outcome" where
  "elementHtml time header message ensureUnreachable backgroundData gettext element =
     (if element_type element = js ''time'' then time element
      else if element_type element = js ''header'' then header backgroundData element
      else if element_type element = js ''message'' then message backgroundData element gettext
      else (case ensureUnreachable element of
              Threw e \<Rightarrow> Threw e
            | Returned u \<Rightarrow>
                Threw (Error (js ''Unidentified element.type: '' @ [39]
                              @ element_type element @ [39]))))"

text \<open>
  \<open>Array.prototype.map\<close> with a callback that may throw: the elements are visited in
  order and the first exception ends the call.
\<close>

fun mapOutcome :: "('a \<Rightarrow> 'b outcome) \<Rightarrow> 'a list \<Rightarrow> 'b list outcome" where
  "mapOutcome f [] = Returned []"
| "mapOutcome f (x # xs) =
     (case f x of
        Threw e \<Rightarrow> Threw e
      | Returned y \<Rightarrow>
          (case mapOutcome f xs of
             Threw e \<Rightarrow> Threw e
           | Returned ys \<Rightarrow> Returned (y # ys)))"

text \<open>\<open>.join('')\<close> on an array of strings is their concatenation.\<close>

definition messageListElementHtml ::
  "('p messageListElement \<Rightarrow> jsstring outcome)
     \<Rightarrow> ('b \<Rightarrow> 'p messageListElement \<Rightarrow> jsstring outcome)
     \<Rightarrow> ('b \<Rightarrow> 'p messageListElement \<Rightarrow> 'g \<Rightarrow> jsstring outcome)
     \<Rightarrow> ('p messageListElement \<Rightarrow> unit outcome)
     \<Rightarrow> 'b \<Rightarrow> 'n \<Rightarrow> 'p messageListElement list \<Rightarrow> 'g \<Rightarrow> jsstring outcome" where
  "messageListElementHtml time header message ensureUnreachable
       backgroundData narrow messageListElements gettext =
     (case mapOutcome (elementHtml time header message ensureUnreachable backgroundData gettext)
             messageListElements of
        Threw e \<Rightarrow> Threw e
      | Returned htmls \<Rightarrow> Returned (concat htmls))"

text \<open>
  String concatenation of two results: the first exception wins, as it does when the two
  renderings are evaluated one after the other.
\<close>

definition concatOutcome :: "jsstring outcome \<Rightarrow> jsstring outcome \<Rightarrow> jsstring outcome" where
  "concatOutcome a b =
     (case a of
        Threw e \<Rightarrow> Threw e
      | Returned x \<Rightarrow> (case b of Threw e \<Rightarrow> Threw e | Returned y \<Rightarrow> Returned (x @ y)))"

section \<open>Adaptation and dispatch of server events\<close>

text \<open>
  Modelled from the spec: the Event Adapter and the Dispatcher are missing from the files
  verified here (the adapter, the event loop and the store). The specification gives
  their contracts: a server event carries a sequence id and type-specific data;
  \<open>adapt(serverEvent)\<close> yields a list of zero or more actions; \<open>classify(action)\<close> yields a
  partition or fails, and an action that fails to classify is logged and dropped (the
  behaviour in production; a development build stops);
  \<open>dispatch(action)\<close> delivers one classified call (partition, optional scope account,
  action) and completes before the next action of the same source is dispatched; each
  account's connection is an ordered queue feeding one single-threaded loop, and the
  streams of different accounts may be interleaved in any way.
  \<open>adapt\<close> and \<open>classify\<close> are parameters; a schedule, the list of the accounts whose
  connection is served at each turn of the loop, stands for the interleaving.
\<close>

datatype partition = PerAccount | AllAccounts | AccountIndependent

record 'e serverEvent =
  event_id :: nat
  event_data :: 'e

record ('k, 'a) dispatchCall =
  call_partition :: partition
  call_scopeAccount :: "'k option"
  call_action :: 'a

text \<open>
  What the loop has delivered so far: each call with the account whose stream it came from
  and the id of the server event it was adapted from.
\<close>

record ('k, 'a) delivery =
  from_account :: 'k
  from_event :: nat
  call :: "('k, 'a) dispatchCall"

record ('k, 'e, 'a) loopState =
  queues :: "'k \<Rightarrow> 'e serverEvent list"
  delivered :: "('k, 'a) delivery list"

text \<open>
  Modelled from the spec: the Dispatcher's \<open>dispatch(action)\<close> is missing. A classified
  action becomes one call, scoped to the account for a Per-Account action; an action
  without a partition becomes none.
\<close>

definition dispatch :: "('a \<Rightarrow> partition option) \<Rightarrow> 'k \<Rightarrow> 'a \<Rightarrow> ('k, 'a) dispatchCall list" where
  "dispatch classify account action =
     (case classify action of
        None \<Rightarrow> []
      | Some p \<Rightarrow>
          [\<lparr>call_partition = p,
            call_scopeAccount = (if p = PerAccount then Some account else None),
            call_action = action\<rparr>])"

text \<open>
  Modelled from the spec: the path of one server event is missing. The event is adapted, and
  its actions are dispatched one after the other in the adapter's order.
\<close>

definition deliverEvent ::
  "('e serverEvent \<Rightarrow> 'a list) \<Rightarrow> ('a \<Rightarrow> partition option) \<Rightarrow> 'k \<Rightarrow> 'e serverEvent
     \<Rightarrow> ('k, 'a) delivery list" where
  "deliverEvent adapt classify account e =
     map (\<lambda>c. \<lparr>from_account = account, from_event = event_id e, call = c\<rparr>)
       (concat (map (dispatch classify account) (adapt e)))"

text \<open>
  Modelled from the spec: the event loop is missing. One turn takes the oldest pending event
  of one account's queue, if there is one; \<open>eventLoop\<close> runs the turns of a schedule.
\<close>

definition serve ::
  "('e serverEvent \<Rightarrow> 'a list) \<Rightarrow> ('a \<Rightarrow> partition option) \<Rightarrow> 'k
     \<Rightarrow> ('k, 'e, 'a) loopState \<Rightarrow> ('k, 'e, 'a) loopState" where
  "serve adapt classify account st =
     (case queues st account of
        [] \<Rightarrow> st
      | e # es \<Rightarrow>
          \<lparr>queues = (queues st)(account := es),
           delivered = delivered st @ deliverEvent adapt classify account e\<rparr>)"

fun eventLoop ::
  "('e serverEvent \<Rightarrow> 'a list) \<Rightarrow> ('a \<Rightarrow> partition option) \<Rightarrow> 'k list
     \<Rightarrow> ('k, 'e, 'a) loopState \<Rightarrow> ('k, 'e, 'a) loopState" where
  "eventLoop adapt classify [] st = st"
| "eventLoop adapt classify (account # schedule) st =
     eventLoop adapt classify schedule (serve adapt classify account st)"

text \<open>
  The deliveries of one account's stream, and the actions a list of server events expands
  to: those of the first event in the adapter's order, then those of the second, and so on,
  without the actions that fail to classify.
\<close>

definition deliveredFor :: "'k \<Rightarrow> ('k, 'e, 'a) loopState \<Rightarrow> ('k, 'a) delivery list" where
  "deliveredFor account st = filter (\<lambda>d. from_account d = account) (delivered st)"

definition expansion ::
  "('e serverEvent \<Rightarrow> 'a list) \<Rightarrow> ('a \<Rightarrow> partition option) \<Rightarrow> 'e serverEvent list \<Rightarrow> 'a list" where
  "expansion adapt classify es =
     concat (map (\<lambda>e. filter (\<lambda>a. classify a \<noteq> None) (adapt e)) es)"

definition initialState :: "('k \<Rightarrow> 'e serverEvent list) \<Rightarrow> ('k, 'e, 'a) loopState" where
  "initialState q = \<lparr>queues = q, delivered = []\<rparr>"

section \<open>Auxiliary notions for the proofs\<close>

text \<open>
  The expression \<open>decodeHashComponent(encodeHashComponent(s))\<close>: an exception of the
  argument is the exception of the whole.
\<close>

definition decodeEncoded :: "jsstring \<Rightarrow> jsstring outcome" where
  "decodeEncoded s =
     (case encodeHashComponent s of
        Threw e \<Rightarrow> Threw e
      | Returned encoded \<Rightarrow> decodeHashComponent encoded)"

text \<open>
  The two replacements of \<open>encodeHashComponent\<close> and \<open>decodeHashComponent\<close> by name, and
  what \<open>encodeURIComponent\<close> emits for one code unit outside the surrogates.
\<close>

definition dotted :: "jsstring \<Rightarrow> jsstring" where
  "dotted = replaceEach (\<lambda>c. c \<in> set (js ''%().''))
              (\<lambda>matched. case map_of hashReplacements matched of Some r \<Rightarrow> r | None \<Rightarrow> [])"

definition undotted :: "jsstring \<Rightarrow> jsstring" where
  "undotted = replaceEach (\<lambda>c. c = 46) (\<lambda>matched. js ''%'')"

definition encodedUnit :: "nat \<Rightarrow> jsstring" where
  "encodedUnit c = (if uriUnescaped c then [c] else concat (map percentEncode (utf8Encode c)))"

text \<open>
  Two invariants of the event loop, for one account: what has been delivered followed by
  what the pending events expand to is what the whole stream expands to; and the delivered
  event ids are in order and not beyond the ids that are pending.
\<close>

definition pendingInv where
  "pendingInv adapt classify q0 account st \<longleftrightarrow>
     map (call_action \<circ> call) (deliveredFor account st)
       @ expansion adapt classify (queues st account)
     = expansion adapt classify (q0 account)"

definition idsInv where
  "idsInv account st \<longleftrightarrow>
     sorted (map from_event (deliveredFor account st))
     \<and> sorted_wrt (<) (map event_id (queues st account))
     \<and> list_all (\<lambda>d. list_all (\<lambda>e. from_event d \<le> event_id e) (queues st account))
          (deliveredFor account st)"

text \<open>Sample inputs: a realm, a resolver that lands on another origin, and two streams.\<close>

definition exampleRealm :: url where
  "exampleRealm =
     \<lparr>href = js ''https://example.com/'', origin = js ''https://example.com'',
      pathname = js ''/'', search = [], hash = []\<rparr>"

definition newURL_unrelated :: "jsstring \<Rightarrow> url \<Rightarrow> url outcome" where
  "newURL_unrelated url base =
     Returned \<lparr>href = url, origin = js ''https://chat.example.org'', pathname = js ''/'',
               search = [], hash = []\<rparr>"

definition sampleQueues :: "nat \<Rightarrow> nat serverEvent list" where
  "sampleQueues account =
     (if account = 0 then
        [\<lparr>event_id = 1, event_data = 10\<rparr>, \<lparr>event_id = 2, event_data = 20\<rparr>]
      else if account = 1 then [\<lparr>event_id = 1, event_data = 30\<rparr>]
      else [])"

definition sampleAdapt :: "nat serverEvent \<Rightarrow> nat list" where
  "sampleAdapt e = [event_data e, event_data e + 1]"

definition sampleClassify :: "nat \<Rightarrow> partition option" where
  "sampleClassify a = (if a = 21 then None else Some PerAccount)"



section \<open>Properties of the action catalog and the classifier\<close>

lemmas union_defs = Action_def PerAccountApplicableAction_def PerAccountAction_def
  AllAccountsAction_def AccountIndependentAction_def EventAction_def AccountAction_def
  LoadingAction_def MessageAction_def OutboxAction_def EventReactionAction_def
  EventSubscriptionAction_def EventTypingAction_def EventUserAction_def EventUserGroupAction_def

lemmas case_defs = perAccountCases_def allAccountsCases_def accountIndependentCases_def

lemma importedConstants_all: "c \<in> set importedConstants"
  unfolding importedConstants_def by (cases c) simp_all

lemma distinct_sample: "distinct (map sampleConstants importedConstants)"
  unfolding importedConstants_def by (simp add: js_def)

lemma inj_sampleConstants: "inj sampleConstants"
proof -
  have "inj_on sampleConstants (set importedConstants)"
    using distinct_sample by (simp add: distinct_map)
  moreover have "set importedConstants = UNIV"
    using importedConstants_all by auto
  ultimately show ?thesis by simp
qed

lemma set_PerAccountAction: "set PerAccountAction = set perAccountCases"
  unfolding union_defs case_defs by (simp add: insert_commute)

lemma set_AllAccountsAction:
  "set AllAccountsAction = insert DISMISS_SERVER_PUSH_SETUP_NOTICE (set allAccountsCases)"
  unfolding union_defs case_defs by (simp add: insert_commute)

lemma set_AccountIndependentAction: "set AccountIndependentAction = set accountIndependentCases"
  unfolding union_defs case_defs by simp

lemma DISMISS_perAccount: "DISMISS_SERVER_PUSH_SETUP_NOTICE \<in> set perAccountCases"
  unfolding case_defs by simp

lemma Action_all: "c \<in> set Action"
  unfolding union_defs by (cases c) simp_all

lemma cases_disjoint:
  "set perAccountCases \<inter> set allAccountsCases = {}"
  "set perAccountCases \<inter> set accountIndependentCases = {}"
  "set allAccountsCases \<inter> set accountIndependentCases = {}"
  unfolding case_defs by simp_all

lemma labels_caseClauses:
  "fst ` set caseClauses = set perAccountCases \<union> set allAccountsCases \<union> set accountIndependentCases"
  unfolding caseClauses_def by (auto simp: image_Un image_image)

lemma switchArm_Default_iff:
  "switchArm K t = DefaultArm \<longleftrightarrow> t \<notin> K ` fst ` set caseClauses"
proof -
  have snd_ne: "snd cl \<noteq> DefaultArm" if "cl \<in> set caseClauses" for cl
    using that unfolding caseClauses_def by auto
  show ?thesis
  proof (cases "find (\<lambda>cl. K (fst cl) = t) caseClauses")
    case None
    then have "t \<notin> K ` fst ` set caseClauses"
      by (auto simp: find_None_iff)
    with None show ?thesis by (simp add: switchArm_def)
  next
    case (Some cl)
    then have "cl \<in> set caseClauses" "K (fst cl) = t"
      by (auto simp: find_Some_iff)
    with Some snd_ne show ?thesis by (auto simp: switchArm_def)
  qed
qed

lemma find_app:
  "find P (xs @ ys) = (case find P xs of None \<Rightarrow> find P ys | Some x \<Rightarrow> Some x)"
  by (induction xs) auto

lemma find_group:
  "inj K \<Longrightarrow> map_option snd (find (\<lambda>cl. K (fst cl) = K c) (map (\<lambda>c. (c, a)) xs))
     = (if c \<in> set xs then Some a else None)"
  by (induction xs) (auto simp: inj_eq)

lemma find_group_None:
  "inj K \<Longrightarrow> c \<notin> set xs \<Longrightarrow> find (\<lambda>cl. K (fst cl) = K c) (map (\<lambda>c. (c, a)) xs) = None"
  using find_group [of K c a xs] by simp

lemma find_group_Some:
  "inj K \<Longrightarrow> c \<in> set xs \<Longrightarrow> \<exists>cl. find (\<lambda>cl. K (fst cl) = K c) (map (\<lambda>c. (c, a)) xs) = Some cl \<and> snd cl = a"
  using find_group [of K c a xs] by (cases "find (\<lambda>cl. K (fst cl) = K c) (map (\<lambda>c. (c, a)) xs)") auto

lemma switchArm_const:
  assumes "inj K"
  shows "switchArm K (K c) =
     (if c \<in> set perAccountCases then PerAccountArm
      else if c \<in> set allAccountsCases then AllAccountsArm
      else if c \<in> set accountIndependentCases then AccountIndependentArm
      else DefaultArm)"
proof -
  let ?P = "\<lambda>cl. K (fst cl) = K c"
  let ?g = "\<lambda>a xs. find ?P (map (\<lambda>c. (c, a)) xs)"
  have split3: "find ?P caseClauses =
      (case ?g PerAccountArm perAccountCases of
         Some cl \<Rightarrow> Some cl
       | None \<Rightarrow> (case ?g AllAccountsArm allAccountsCases of
                    Some cl \<Rightarrow> Some cl
                  | None \<Rightarrow> ?g AccountIndependentArm accountIndependentCases))"
    unfolding caseClauses_def by (simp add: find_app split: option.splits)
  consider (p) "c \<in> set perAccountCases"
    | (a) "c \<notin> set perAccountCases" "c \<in> set allAccountsCases"
    | (i) "c \<notin> set perAccountCases" "c \<notin> set allAccountsCases"
          "c \<in> set accountIndependentCases"
    | (d) "c \<notin> set perAccountCases" "c \<notin> set allAccountsCases"
          "c \<notin> set accountIndependentCases"
    by blast
  then show ?thesis
  proof cases
    case p
    from find_group_Some [OF assms p, of PerAccountArm] obtain cl
      where "?g PerAccountArm perAccountCases = Some cl" "snd cl = PerAccountArm" by blast
    with p show ?thesis by (simp add: switchArm_def split3)
  next
    case a
    from find_group_Some [OF assms a(2), of AllAccountsArm] obtain cl
      where "?g AllAccountsArm allAccountsCases = Some cl" "snd cl = AllAccountsArm" by blast
    with a find_group_None [OF assms a(1), of PerAccountArm]
    show ?thesis by (simp add: switchArm_def split3)
  next
    case i
    from find_group_Some [OF assms i(3), of AccountIndependentArm] obtain cl
      where "?g AccountIndependentArm accountIndependentCases = Some cl"
        "snd cl = AccountIndependentArm" by blast
    with i find_group_None [OF assms i(1), of PerAccountArm]
      find_group_None [OF assms i(2), of AllAccountsArm]
    show ?thesis by (simp add: switchArm_def split3)
  next
    case d
    with find_group_None [OF assms d(1), of PerAccountArm]
      find_group_None [OF assms d(2), of AllAccountsArm]
      find_group_None [OF assms d(3), of AccountIndependentArm]
    show ?thesis by (simp add: switchArm_def split3)
  qed
qed

lemma arm_of_const:
  "c \<in> set perAccountCases \<or> c \<in> set allAccountsCases \<or> c \<in> set accountIndependentCases"
  unfolding case_defs by (cases c) simp_all

lemma sampleAction_in_catalog: "type (sampleAction c) \<in> sampleConstants ` set Action"
  by (simp add: sampleAction_def Action_all)

lemma madeUp_not_constant: "js ''made-up-future-event'' \<noteq> sampleConstants c"
  by (cases c) (simp_all add: js_def)

lemma fst_isPerAccountApplicableAction_const:
  assumes "inj K" and "type a = K c"
  shows "isPerAccountApplicableAction K eu a s =
     (Returned (c \<in> set perAccountCases \<or> c \<in> set allAccountsCases), s)"
  using arm_of_const [of c] assms(2)
  by (auto simp: isPerAccountApplicableAction_def switchArm_const [OF assms(1)])

text \<open>
  C1. Every discriminant of the catalog should belong to exactly one of
  \<open>PerAccountAction\<close>, \<open>AllAccountsAction\<close> and \<open>AccountIndependentAction\<close>. The three
  unions do cover the catalog, and \<open>AccountIndependentAction\<close> is disjoint from the
  other two; but \<open>DISMISS_SERVER_PUSH_SETUP_NOTICE\<close> is a member of \<open>PerAccountAction\<close>
  directly and of \<open>AllAccountsAction\<close> through \<open>AccountAction\<close>, and it is the only
  discriminant in two unions.
\<close>

theorem partition_overlap:
  "set PerAccountAction \<inter> set AllAccountsAction = {DISMISS_SERVER_PUSH_SETUP_NOTICE}
   \<and> set PerAccountAction \<inter> set AccountIndependentAction = {}
   \<and> set AllAccountsAction \<inter> set AccountIndependentAction = {}
   \<and> set Action = UNIV"
proof -
  have "set PerAccountAction \<inter> set AllAccountsAction = {DISMISS_SERVER_PUSH_SETUP_NOTICE}"
    using cases_disjoint(1) DISMISS_perAccount
    by (auto simp: set_PerAccountAction set_AllAccountsAction)
  moreover have "set PerAccountAction \<inter> set AccountIndependentAction = {}"
    using cases_disjoint(2) by (simp add: set_PerAccountAction set_AccountIndependentAction)
  moreover have "set AllAccountsAction \<inter> set AccountIndependentAction = {}"
    unfolding set_AllAccountsAction set_AccountIndependentAction case_defs by simp
  moreover have "set Action = UNIV"
    using Action_all by auto
  ultimately show ?thesis by simp
qed

text \<open>
  C2. For an action whose discriminant is in the catalog, the classifier returns \<open>true\<close>
  exactly when the discriminant belongs to \<open>PerAccountAction\<close> or \<open>AllAccountsAction\<close>
  (that is, when the arm taken is one of the first two), and \<open>false\<close> exactly when it
  belongs to \<open>AccountIndependentAction\<close>. The constants are pairwise distinct strings.
\<close>

theorem derivation_consistency:
  assumes "inj K" and "type a \<in> K ` set Action"
  shows "(fst (isPerAccountApplicableAction K eu a s) = Returned True
            \<longleftrightarrow> type a \<in> K ` (set PerAccountAction \<union> set AllAccountsAction))
       \<and> (fst (isPerAccountApplicableAction K eu a s) = Returned True
            \<longleftrightarrow> switchArm K (type a) \<in> {PerAccountArm, AllAccountsArm})
       \<and> (fst (isPerAccountApplicableAction K eu a s) = Returned False
            \<longleftrightarrow> type a \<in> K ` set AccountIndependentAction)"
proof -
  from assms(2) obtain c where c: "type a = K c" by auto
  have mem: "K c \<in> K ` S \<longleftrightarrow> c \<in> S" for S
    using assms(1) by (simp add: inj_image_mem_iff)
  have r: "fst (isPerAccountApplicableAction K eu a s)
      = Returned (c \<in> set perAccountCases \<or> c \<in> set allAccountsCases)"
    by (simp add: fst_isPerAccountApplicableAction_const [OF assms(1) c])
  have u: "c \<in> set PerAccountAction \<union> set AllAccountsAction
      \<longleftrightarrow> c \<in> set perAccountCases \<or> c \<in> set allAccountsCases"
    using DISMISS_perAccount by (auto simp: set_PerAccountAction set_AllAccountsAction)
  have i: "c \<in> set AccountIndependentAction
      \<longleftrightarrow> \<not> (c \<in> set perAccountCases \<or> c \<in> set allAccountsCases)"
    using arm_of_const [of c] cases_disjoint by (auto simp: set_AccountIndependentAction)
  have arm: "switchArm K (type a) \<in> {PerAccountArm, AllAccountsArm}
      \<longleftrightarrow> c \<in> set perAccountCases \<or> c \<in> set allAccountsCases"
    using arm_of_const [of c] by (auto simp: c switchArm_const [OF assms(1)])
  show ?thesis
    unfolding r c mem u i using arm [unfolded c] by simp
qed

theorem derivation_consistency_witness:
  "inj sampleConstants
   \<and> type (sampleAction LOGOUT) \<in> sampleConstants ` set Action
   \<and> fst (isPerAccountApplicableAction sampleConstants ensureUnreachable_noop
            (sampleAction LOGOUT) ()) = Returned True
   \<and> type (sampleAction LOGOUT)
        \<in> sampleConstants ` (set PerAccountAction \<union> set AllAccountsAction)
   \<and> switchArm sampleConstants (type (sampleAction LOGOUT)) = AllAccountsArm
   \<and> type (sampleAction LOGOUT) \<notin> sampleConstants ` set AccountIndependentAction"
proof -
  have h: "type (sampleAction LOGOUT) \<in> sampleConstants ` set Action"
    by (rule sampleAction_in_catalog)
  have arm: "switchArm sampleConstants (type (sampleAction LOGOUT)) = AllAccountsArm"
    unfolding sampleAction_def
    by (simp add: switchArm_const [OF inj_sampleConstants] case_defs del: sampleConstants.simps)
  from derivation_consistency [OF inj_sampleConstants h, of ensureUnreachable_noop "()"]
  show ?thesis using inj_sampleConstants h arm by auto
qed

text \<open>
  C3. An action whose discriminant is in the catalog is matched by a case label: the
  default arm is not taken, \<open>ensureUnreachable\<close> is not called, and a boolean is returned.
\<close>

theorem classifier_total:
  assumes "type a \<in> K ` set Action"
  shows "switchArm K (type a) \<noteq> DefaultArm
       \<and> (\<exists>b. isPerAccountApplicableAction K eu a s = (Returned b, s))"
proof -
  from assms obtain c where c: "type a = K c" by auto
  have "c \<in> fst ` set caseClauses"
    using arm_of_const [of c] by (simp add: labels_caseClauses)
  then have nd: "switchArm K (type a) \<noteq> DefaultArm"
    by (simp add: switchArm_Default_iff c)
  then show ?thesis
    by (cases "switchArm K (type a)") (auto simp: isPerAccountApplicableAction_def)
qed

theorem classifier_total_witness:
  "type (sampleAction EVENT_NEW_MESSAGE) \<in> sampleConstants ` set Action
   \<and> switchArm sampleConstants (type (sampleAction EVENT_NEW_MESSAGE)) \<noteq> DefaultArm
   \<and> (\<exists>b. isPerAccountApplicableAction sampleConstants ensureUnreachable_throwing
             (sampleAction EVENT_NEW_MESSAGE) () = (Returned b, ()))"
proof -
  have h: "type (sampleAction EVENT_NEW_MESSAGE) \<in> sampleConstants ` set Action"
    by (rule sampleAction_in_catalog)
  from classifier_total [OF h, of ensureUnreachable_throwing "()"]
  show ?thesis using h by simp
qed

text \<open>
  C4. The three scenarios: \<open>EVENT_TYPING_START\<close> takes the per-account arm and yields
  \<open>true\<close>, \<open>ACCOUNT_SWITCH\<close> takes the all-accounts arm and yields \<open>true\<close>,
  \<open>APP_ONLINE\<close> takes the account-independent arm and yields \<open>false\<close>.
\<close>

theorem scenario_classifications:
  assumes "inj K"
  shows "switchArm K (K EVENT_TYPING_START) = PerAccountArm
       \<and> isPerAccountApplicableAction K eu (a\<lparr>type := K EVENT_TYPING_START\<rparr>) s
           = (Returned True, s)
       \<and> switchArm K (K ACCOUNT_SWITCH) = AllAccountsArm
       \<and> isPerAccountApplicableAction K eu (a\<lparr>type := K ACCOUNT_SWITCH\<rparr>) s
           = (Returned True, s)
       \<and> switchArm K (K APP_ONLINE) = AccountIndependentArm
       \<and> isPerAccountApplicableAction K eu (a\<lparr>type := K APP_ONLINE\<rparr>) s
           = (Returned False, s)"
  by (simp add: isPerAccountApplicableAction_def switchArm_const [OF assms] case_defs)

theorem scenario_classifications_witness:
  "inj sampleConstants
   \<and> switchArm sampleConstants (js ''EVENT_TYPING_START'') = PerAccountArm
   \<and> isPerAccountApplicableAction sampleConstants ensureUnreachable_noop
        \<lparr>type = js ''EVENT_TYPING_START'', payload = ()\<rparr> () = (Returned True, ())
   \<and> switchArm sampleConstants (js ''ACCOUNT_SWITCH'') = AllAccountsArm
   \<and> isPerAccountApplicableAction sampleConstants ensureUnreachable_noop
        \<lparr>type = js ''ACCOUNT_SWITCH'', payload = ()\<rparr> () = (Returned True, ())
   \<and> switchArm sampleConstants (js ''APP_ONLINE'') = AccountIndependentArm
   \<and> isPerAccountApplicableAction sampleConstants ensureUnreachable_noop
        \<lparr>type = js ''APP_ONLINE'', payload = ()\<rparr> () = (Returned False, ())"
  using inj_sampleConstants
    scenario_classifications [OF inj_sampleConstants, of ensureUnreachable_noop madeUpAction "()"]
  by (simp add: madeUpAction_def)

text \<open>
  C5. An action whose discriminant is not in the catalog takes the default arm. Nothing
  there throws, logs or drops the action: the arm calls \<open>ensureUnreachable(action)\<close> and,
  when that call returns, the classifier returns \<open>false\<close>, the answer it gives for an
  account-independent action. The classifier throws only if \<open>ensureUnreachable\<close> does.
\<close>

theorem unknown_discriminant_default:
  assumes "type a \<notin> K ` set Action"
  shows "switchArm K (type a) = DefaultArm
       \<and> isPerAccountApplicableAction K eu a s =
           (case eu a s of
              (Threw e, s') \<Rightarrow> (Threw e, s')
            | (Returned u, s') \<Rightarrow> (Returned False, s'))"
proof -
  have "type a \<notin> K ` fst ` set caseClauses"
    using assms Action_all by auto
  then have "switchArm K (type a) = DefaultArm"
    by (simp add: switchArm_Default_iff)
  then show ?thesis by (simp add: isPerAccountApplicableAction_def)
qed

theorem unknown_discriminant_default_witness:
  "type madeUpAction \<notin> sampleConstants ` set Action
   \<and> switchArm sampleConstants (type madeUpAction) = DefaultArm
   \<and> isPerAccountApplicableAction sampleConstants ensureUnreachable_throwing madeUpAction ()
       = (Threw (Error (js ''unreachable'')), ())"
proof -
  have h: "type madeUpAction \<notin> sampleConstants ` set Action"
    using madeUp_not_constant by (auto simp: madeUpAction_def)
  from unknown_discriminant_default [OF h, of ensureUnreachable_throwing "()"]
  show ?thesis using h by (simp add: ensureUnreachable_throwing_def)
qed

text \<open>
  With an \<open>ensureUnreachable\<close> that returns, an action of an unknown type is answered
  \<open>false\<close> without any failure, exactly as an \<open>APP_ONLINE\<close> action is.
\<close>

theorem unknown_discriminant_returns_false:
  "type madeUpAction \<notin> sampleConstants ` set Action
   \<and> isPerAccountApplicableAction sampleConstants ensureUnreachable_noop madeUpAction ()
       = (Returned False, ())
   \<and> isPerAccountApplicableAction sampleConstants ensureUnreachable_noop
        (sampleAction APP_ONLINE) () = (Returned False, ())"
proof -
  have h: "type madeUpAction \<notin> sampleConstants ` set Action"
    using madeUp_not_constant by (auto simp: madeUpAction_def)
  then have "type madeUpAction \<notin> sampleConstants ` fst ` set caseClauses"
    using Action_all by auto
  then have "switchArm sampleConstants (type madeUpAction) = DefaultArm"
    by (simp add: switchArm_Default_iff)
  then have m: "isPerAccountApplicableAction sampleConstants ensureUnreachable_noop
      madeUpAction () = (Returned False, ())"
    by (simp add: isPerAccountApplicableAction_def ensureUnreachable_noop_def)
  have "type (sampleAction APP_ONLINE) = sampleConstants APP_ONLINE"
    by (simp add: sampleAction_def)
  from fst_isPerAccountApplicableAction_const [OF inj_sampleConstants this]
  have "isPerAccountApplicableAction sampleConstants ensureUnreachable_noop
      (sampleAction APP_ONLINE) () = (Returned False, ())"
    by (simp add: case_defs)
  with h m show ?thesis by simp
qed

section \<open>Properties of the narrow links\<close>

lemma splitFrom_nonempty: "splitFrom sep cur s \<noteq> []"
  by (induction sep cur s rule: splitFrom.induct) auto

lemma split_nonempty: "sep \<noteq> [] \<Longrightarrow> split s sep \<noteq> []"
  by (simp add: split_def splitFrom_nonempty)

lemma pop_Some: "xs \<noteq> [] \<Longrightarrow> \<exists>x. pop xs = Some x"
  by (simp add: pop_def)

lemma getPathsFromUrl_returns:
  assumes "href realm \<noteq> []"
  shows "\<exists>paths. getPathsFromUrl url realm = Returned paths"
proof -
  from pop_Some [OF split_nonempty [OF assms]] obtain a
    where a: "pop (split url (href realm)) = Some a" by blast
  have "js ''#narrow/'' \<noteq> []" by (simp add: js_def)
  from pop_Some [OF split_nonempty [OF this]] obtain b
    where b: "pop (split a (js ''#narrow/'')) = Some b" by blast
  show ?thesis
    by (simp add: getPathsFromUrl_def a b Let_def)
qed

text \<open>
  C9. For a realm URL (its \<open>href\<close> is not empty) and any url string: when
  \<open>isMessageLink\<close> is false, which is when the url is not an internal link or does not
  contain \<open>near\<close>, \<open>getMessageIdFromLink\<close> returns 0; and \<open>getLinkType\<close> returns
  \<open>'external'\<close> exactly when \<open>isInternalLink\<close> is false.
\<close>

theorem non_message_link_fallback:
  assumes "href realm \<noteq> []"
  shows "(isMessageLink newURL url realm = Returned False
            \<longrightarrow> getMessageIdFromLink newURL parseInt url realm = Returned (Num 0))
       \<and> (isMessageLink newURL url realm = Returned False
            \<longleftrightarrow> isInternalLink newURL url realm = Returned False
                \<or> (isInternalLink newURL url realm = Returned True
                    \<and> \<not> includes_str url (js ''near'')))
       \<and> (getLinkType newURL url realm = Returned external
            \<longleftrightarrow> isInternalLink newURL url realm = Returned False)"
proof -
  from getPathsFromUrl_returns [OF assms] obtain paths
    where p: "getPathsFromUrl url realm = Returned paths" by blast
  have 1: "isMessageLink newURL url realm = Returned False
      \<longrightarrow> getMessageIdFromLink newURL parseInt url realm = Returned (Num 0)"
    by (simp add: getMessageIdFromLink_def p)
  have 2: "isMessageLink newURL url realm = Returned False
      \<longleftrightarrow> isInternalLink newURL url realm = Returned False
          \<or> (isInternalLink newURL url realm = Returned True
              \<and> \<not> includes_str url (js ''near''))"
    by (auto simp: isMessageLink_def split: outcome.splits bool.splits)
  have 3: "getLinkType newURL url realm = Returned external
      \<longleftrightarrow> isInternalLink newURL url realm = Returned False"
    by (auto simp: getLinkType_def p split: outcome.splits bool.splits)
  from 1 2 3 show ?thesis by blast
qed

theorem non_message_link_fallback_witness:
  "href exampleRealm \<noteq> []
   \<and> isMessageLink newURL_unrelated (js ''https://chat.example.org/'') exampleRealm
       = Returned False
   \<and> getMessageIdFromLink newURL_unrelated (\<lambda>s r. NaN) (js ''https://chat.example.org/'')
        exampleRealm = Returned (Num 0)
   \<and> getLinkType newURL_unrelated (js ''https://chat.example.org/'') exampleRealm
       = Returned external"
proof -
  have h: "href exampleRealm \<noteq> []"
    by (simp add: exampleRealm_def js_def)
  have i: "isInternalLink newURL_unrelated (js ''https://chat.example.org/'') exampleRealm
      = Returned False"
    by (simp add: isInternalLink_def newURL_unrelated_def exampleRealm_def js_def)
  then have m: "isMessageLink newURL_unrelated (js ''https://chat.example.org/'') exampleRealm
      = Returned False"
    by (simp add: isMessageLink_def)
  from non_message_link_fallback [OF h, of newURL_unrelated "js ''https://chat.example.org/''" "\<lambda>s r. NaN"]
  show ?thesis using h i m by simp
qed

subsection \<open>The dot-encoding\<close>

lemma prepend_Returned [simp]: "prepend x (Returned s) = Returned (x @ s)"
  by (simp add: prepend_def)

lemma prepend_Threw [simp]: "prepend x (Threw e) = Threw e"
  by (simp add: prepend_def)

lemma prepend_prepend: "prepend x (prepend y r) = prepend (x @ y) r"
  by (cases r) simp_all

lemma replaceEach_append:
  "replaceEach m f (a @ b) = replaceEach m f a @ replaceEach m f b"
  by (simp add: replaceEach_def)

lemma replaceEach_Nil [simp]: "replaceEach m f [] = []"
  by (simp add: replaceEach_def)

lemma replaceEach_Cons:
  "replaceEach m f (c # s) = (if m c then f [c] else [c]) @ replaceEach m f s"
  by (simp add: replaceEach_def)

lemma undotted_dotted_append:
  "undotted (dotted (a @ b)) = undotted (dotted a) @ undotted (dotted b)"
  by (simp add: dotted_def undotted_def replaceEach_append)

lemma undotted_dotted_Cons:
  "undotted (dotted (c # s)) = undotted (dotted [c]) @ undotted (dotted s)"
  using undotted_dotted_append [of "[c]" s] by simp

lemma undotted_dotted_single:
  "undotted (dotted [c]) =
     (if c = 37 then [37] else if c = 40 then [37, 50, 56] else if c = 41 then [37, 50, 57]
      else if c = 46 then [37, 50, 69] else [c])"
  by (simp add: dotted_def undotted_def replaceEach_Cons hashReplacements_def js_def)

lemma hexDigit_ge: "48 \<le> hexDigit d"
  by (simp add: hexDigit_def)

lemma undotted_dotted_hexDigit: "undotted (dotted [hexDigit d]) = [hexDigit d]"
  using hexDigit_ge [of d] by (simp add: undotted_dotted_single)

lemma undotted_dotted_percentEncode: "undotted (dotted (percentEncode b)) = percentEncode b"
proof -
  have "percentEncode b = [37] @ [hexDigit (b div 16)] @ [hexDigit (b mod 16)]"
    by (simp add: percentEncode_def)
  then have "undotted (dotted (percentEncode b))
      = undotted (dotted [37]) @ undotted (dotted [hexDigit (b div 16)])
        @ undotted (dotted [hexDigit (b mod 16)])"
    by (simp only: undotted_dotted_append)
  moreover have "undotted (dotted [37]) = [37]"
    by (simp add: undotted_dotted_single)
  ultimately have "undotted (dotted (percentEncode b))
      = [37] @ [hexDigit (b div 16)] @ [hexDigit (b mod 16)]"
    by (simp only: undotted_dotted_hexDigit)
  then show ?thesis
    by (simp add: percentEncode_def)
qed

lemma undotted_dotted_escapes:
  "undotted (dotted (concat (map percentEncode bs))) = concat (map percentEncode bs)"
proof (induction bs)
  case Nil
  show ?case by (simp add: dotted_def undotted_def)
next
  case (Cons b bs)
  then show ?case
    by (simp add: undotted_dotted_append undotted_dotted_percentEncode)
qed

lemma hexValue_hexDigit: "d < 16 \<Longrightarrow> hexValue (hexDigit d) = Some d"
  by (simp add: hexValue_def hexDigit_def)

lemma parseHexOctet_hexDigit:
  "b < 256 \<Longrightarrow> parseHexOctet (hexDigit (b div 16)) (hexDigit (b mod 16)) = Some b"
  by (simp add: parseHexOctet_def hexValue_hexDigit)

lemma parseEscapes_percentEncode:
  "list_all (\<lambda>b. b < 256) bs \<Longrightarrow> parseEscapes (concat (map percentEncode bs)) = Some bs"
  by (induction bs) (simp_all add: percentEncode_def parseHexOctet_hexDigit)

lemma length_escapes: "length (concat (map percentEncode bs)) = 3 * length bs"
  by (induction bs) (simp_all add: percentEncode_def)

text \<open>Decoding one escape sequence in front of a string.\<close>

lemma decode_ascii_escape:
  assumes "b < 0x80"
  shows "decodeURIComponent (percentEncode b @ t) = prepend [b] (decodeURIComponent t)"
  using assms by (simp add: percentEncode_def parseHexOctet_hexDigit leadingOnes_def)

lemma decode_multi_escape:
  assumes "b < 256" and "list_all (\<lambda>b. b < 256) bs"
    and "leadingOnes b = Suc (length bs)" and "bs \<noteq> []" and "length bs \<le> 3"
    and "utf8Decode (b # bs) = Some v"
  shows "decodeURIComponent (concat (map percentEncode (b # bs)) @ t)
           = prepend (utf16Encode v) (decodeURIComponent t)"
proof -
  have "decodeURIComponent (concat (map percentEncode (b # bs)) @ t)
      = decodeURIComponent (37 # hexDigit (b div 16) # hexDigit (b mod 16)
          # (concat (map percentEncode bs) @ t))"
    by (simp add: percentEncode_def)
  also have "\<dots> = prepend (utf16Encode v) (decodeURIComponent t)"
    using assms
    by (simp add: parseHexOctet_hexDigit length_escapes parseEscapes_percentEncode
        del: utf8Decode.simps)
  finally show ?thesis .
qed

lemma mod_4096: "(n::nat) mod 4096 = 64 * (n div 64 mod 64) + n mod 64"
  using mod_mult2_eq [of n 64 64] by simp

lemma mod_262144: "(n::nat) mod 262144 = 4096 * (n div 4096 mod 64) + n mod 4096"
  using mod_mult2_eq [of n 4096 64] by simp

lemma mod_64_bound: "(n::nat) mod 64 < 128"
  using mod_less_divisor [of 64 n] by linarith

lemma decode_codepoint2:
  assumes "0x80 \<le> cp" and "cp < 0x800"
  shows "decodeURIComponent (concat (map percentEncode (utf8Encode cp)) @ t)
           = prepend (utf16Encode cp) (decodeURIComponent t)"
proof -
  let ?b = "0xC0 + cp div 64" and ?bs = "[0x80 + cp mod 64]"
  have enc: "utf8Encode cp = ?b # ?bs"
    using assms by (simp add: utf8Encode_def)
  have "cp div 64 < 32" using assms by simp
  then have lo: "leadingOnes ?b = Suc (length ?bs)" and b: "?b < 256"
    by (simp_all add: leadingOnes_def)
  have dec: "utf8Decode (?b # ?bs) = Some cp"
    using assms by (simp add: isContinuation_def)
  show ?thesis
    unfolding enc by (rule decode_multi_escape [OF b _ lo _ _ dec]) (simp_all add: mod_64_bound)
qed

lemma decode_codepoint3:
  assumes "0x800 \<le> cp" and "cp < 0x10000" and "cp < 0xD800 \<or> 0xDFFF < cp"
  shows "decodeURIComponent (concat (map percentEncode (utf8Encode cp)) @ t)
           = prepend (utf16Encode cp) (decodeURIComponent t)"
proof -
  let ?b = "0xE0 + cp div 4096"
  let ?bs = "[0x80 + (cp div 64) mod 64, 0x80 + cp mod 64]"
  have enc: "utf8Encode cp = ?b # ?bs"
    using assms by (simp add: utf8Encode_def)
  have "cp div 4096 < 16" using assms by simp
  then have lo: "leadingOnes ?b = Suc (length ?bs)" and b: "?b < 256"
    by (simp_all add: leadingOnes_def)
  have v: "(cp div 4096) * 4096 + ((cp div 64) mod 64) * 64 + cp mod 64 = cp"
    using div_mult_mod_eq [of cp 4096] mod_4096 [of cp] by linarith
  have dec: "utf8Decode (?b # ?bs) = Some cp"
    using assms v by (auto simp: isContinuation_def)
  show ?thesis
    unfolding enc by (rule decode_multi_escape [OF b _ lo _ _ dec]) (simp_all add: mod_64_bound)
qed

lemma decode_codepoint4:
  assumes "0x10000 \<le> cp" and "cp \<le> 0x10FFFF"
  shows "decodeURIComponent (concat (map percentEncode (utf8Encode cp)) @ t)
           = prepend (utf16Encode cp) (decodeURIComponent t)"
proof -
  let ?b = "0xF0 + cp div 262144"
  let ?bs = "[0x80 + (cp div 4096) mod 64, 0x80 + (cp div 64) mod 64, 0x80 + cp mod 64]"
  have enc: "utf8Encode cp = ?b # ?bs"
    using assms by (simp add: utf8Encode_def)
  have "cp div 262144 < 8" using assms by simp
  then have lo: "leadingOnes ?b = Suc (length ?bs)" and b: "?b < 256"
    by (simp_all add: leadingOnes_def)
  have v: "(cp div 262144) * 262144 + ((cp div 4096) mod 64) * 4096
      + ((cp div 64) mod 64) * 64 + cp mod 64 = cp"
    using div_mult_mod_eq [of cp 262144] mod_262144 [of cp] mod_4096 [of cp] by linarith
  have dec: "utf8Decode (?b # ?bs) = Some cp"
    using assms v by (auto simp: isContinuation_def)
  show ?thesis
    unfolding enc by (rule decode_multi_escape [OF b _ lo _ _ dec]) (simp_all add: mod_64_bound)
qed

lemma decode_codepoint:
  assumes "cp \<le> 0x10FFFF" and "cp < 0xD800 \<or> 0xDFFF < cp"
  shows "decodeURIComponent (concat (map percentEncode (utf8Encode cp)) @ t)
           = prepend (utf16Encode cp) (decodeURIComponent t)"
proof -
  consider "cp < 0x80" | "0x80 \<le> cp" "cp < 0x800" | "0x800 \<le> cp" "cp < 0x10000"
    | "0x10000 \<le> cp"
    by linarith
  then show ?thesis
  proof cases
    case 1
    then have "utf8Encode cp = [cp]" "utf16Encode cp = [cp]"
      by (simp_all add: utf8Encode_def utf16Encode_def)
    with decode_ascii_escape [OF 1, of t] show ?thesis by simp
  next
    case 2
    then show ?thesis by (rule decode_codepoint2)
  next
    case 3
    with assms(2) show ?thesis by (intro decode_codepoint3)
  next
    case 4
    with assms(1) show ?thesis by (intro decode_codepoint4)
  qed
qed

lemma utf16Encode_pair:
  assumes "isLeadingSurrogate c" and "isTrailingSurrogate d"
  shows "utf16Encode (surrogatePairToCodePoint c d) = [c, d]"
    and "0x10000 \<le> surrogatePairToCodePoint c d"
    and "surrogatePairToCodePoint c d \<le> 0x10FFFF"
proof -
  define a where "a = c - 0xD800"
  define b where "b = d - 0xDC00"
  have c: "c = 0xD800 + a" and a: "a < 0x400"
    using assms(1) by (auto simp: a_def isLeadingSurrogate_def)
  have d: "d = 0xDC00 + b" and b: "b < 0x400"
    using assms(2) by (auto simp: b_def isTrailingSurrogate_def)
  have cp: "surrogatePairToCodePoint c d = 0x10000 + (a * 0x400 + b)"
    by (simp add: surrogatePairToCodePoint_def c d)
  have "(a * 0x400 + b) div 0x400 = a" "(a * 0x400 + b) mod 0x400 = b"
    using b by simp_all
  then show "utf16Encode (surrogatePairToCodePoint c d) = [c, d]"
    unfolding cp by (simp add: utf16Encode_def c d)
  show "0x10000 \<le> surrogatePairToCodePoint c d"
    unfolding cp by simp
  have "a * 0x400 + b \<le> 0x3FF * 0x400 + 0x3FF"
    using a b by (intro add_mono mult_le_mono1) simp_all
  then show "surrogatePairToCodePoint c d \<le> 0x10FFFF"
    unfolding cp by simp
qed

lemma uriUnescaped_range: "uriUnescaped c \<Longrightarrow> c < 128 \<and> c \<noteq> 37"
  by (auto simp: uriUnescaped_def js_def)

lemma decode_unescaped:
  assumes "uriUnescaped c"
  shows "decodeURIComponent (undotted (dotted [c]) @ t) = prepend [c] (decodeURIComponent t)"
proof -
  have c: "c \<noteq> 37" using uriUnescaped_range [OF assms] by simp
  consider "c = 40" | "c = 41" | "c = 46" | "c \<noteq> 40" "c \<noteq> 41" "c \<noteq> 46" by blast
  then show ?thesis
  proof cases
    case 1
    then show ?thesis
      by (simp add: undotted_dotted_single parseHexOctet_def hexValue_def leadingOnes_def)
  next
    case 2
    then show ?thesis
      by (simp add: undotted_dotted_single parseHexOctet_def hexValue_def leadingOnes_def)
  next
    case 3
    then show ?thesis
      by (simp add: undotted_dotted_single parseHexOctet_def hexValue_def leadingOnes_def)
  next
    case 4
    with c show ?thesis by (simp add: undotted_dotted_single)
  qed
qed

lemma encode_unit:
  assumes "\<not> isLeadingSurrogate c" and "\<not> isTrailingSurrogate c"
  shows "encodeURIComponent (c # t) = prepend (encodedUnit c) (encodeURIComponent t)"
  using assms by (cases t) (simp_all add: encodedUnit_def)

lemma encode_pair:
  assumes "isLeadingSurrogate c" and "isTrailingSurrogate d"
  shows "encodeURIComponent (c # d # t)
           = prepend (concat (map percentEncode (utf8Encode (surrogatePairToCodePoint c d))))
               (encodeURIComponent t)"
proof -
  have "\<not> uriUnescaped c" "\<not> isTrailingSurrogate c"
    using assms(1) uriUnescaped_range [of c]
    by (auto simp: isLeadingSurrogate_def isTrailingSurrogate_def)
  with assms show ?thesis by simp
qed

lemma roundtrip_unit:
  assumes "c < 65536" and "\<not> isLeadingSurrogate c" and "\<not> isTrailingSurrogate c"
  shows "decodeURIComponent (undotted (dotted (encodedUnit c)) @ t)
           = prepend [c] (decodeURIComponent t)"
proof (cases "uriUnescaped c")
  case True
  then show ?thesis by (simp add: encodedUnit_def decode_unescaped)
next
  case False
  have "c < 0xD800 \<or> 0xDFFF < c"
    using assms(2,3) by (auto simp: isLeadingSurrogate_def isTrailingSurrogate_def)
  moreover have "c \<le> 0x10FFFF" using assms(1) by simp
  moreover have "utf16Encode c = [c]" using assms(1) by (simp add: utf16Encode_def)
  ultimately show ?thesis
    using False by (simp add: encodedUnit_def undotted_dotted_escapes decode_codepoint)
qed

lemma roundtrip_pair:
  assumes "isLeadingSurrogate c" and "isTrailingSurrogate d"
  shows "decodeURIComponent
           (undotted (dotted (concat (map percentEncode
              (utf8Encode (surrogatePairToCodePoint c d))))) @ t)
           = prepend [c, d] (decodeURIComponent t)"
proof -
  note p = utf16Encode_pair [OF assms]
  have "surrogatePairToCodePoint c d < 0xD800 \<or> 0xDFFF < surrogatePairToCodePoint c d"
    using p(2) by simp
  from decode_codepoint [OF p(3) this, of t] show ?thesis
    by (simp add: undotted_dotted_escapes p(1))
qed

lemma roundtrip_uri:
  "isWellFormed s \<Longrightarrow>
     \<exists>e. encodeURIComponent s = Returned e
        \<and> decodeURIComponent (undotted (dotted e)) = Returned s"
proof (induction s rule: isWellFormed.induct)
  case 1
  show ?case by (simp add: dotted_def undotted_def)
next
  case (2 c)
  then have c: "c < 65536" "\<not> isLeadingSurrogate c" "\<not> isTrailingSurrogate c" by simp_all
  have "encodeURIComponent [c] = Returned (encodedUnit c)"
    using encode_unit [OF c(2,3), of "[]"] by simp
  moreover have "decodeURIComponent (undotted (dotted (encodedUnit c))) = Returned [c]"
    using roundtrip_unit [OF c, of "[]"] by simp
  ultimately show ?case by simp
next
  case (3 c d rest)
  show ?case
  proof (cases "isLeadingSurrogate c")
    case True
    with "3.prems" have d: "isTrailingSurrogate d" and wf: "isWellFormed rest" by simp_all
    from "3.IH"(1) [OF True wf] obtain e where
      e: "encodeURIComponent rest = Returned e"
         "decodeURIComponent (undotted (dotted e)) = Returned rest" by blast
    let ?chunk = "concat (map percentEncode (utf8Encode (surrogatePairToCodePoint c d)))"
    have "encodeURIComponent (c # d # rest) = Returned (?chunk @ e)"
      using encode_pair [OF True d, of rest] by (simp only: e(1) prepend_Returned)
    moreover have "decodeURIComponent (undotted (dotted (?chunk @ e))) = Returned (c # d # rest)"
      by (simp add: undotted_dotted_append roundtrip_pair [OF True d] e(2))
    ultimately show ?thesis by blast
  next
    case False
    with "3.prems" have c: "c < 65536" "\<not> isTrailingSurrogate c"
      and wf: "isWellFormed (d # rest)" by simp_all
    from "3.IH"(2) [OF False wf] obtain e where
      e: "encodeURIComponent (d # rest) = Returned e"
         "decodeURIComponent (undotted (dotted e)) = Returned (d # rest)" by blast
    have "encodeURIComponent (c # d # rest) = Returned (encodedUnit c @ e)"
      using encode_unit [OF False c(2), of "d # rest"] by (simp only: e(1) prepend_Returned)
    moreover have "decodeURIComponent (undotted (dotted (encodedUnit c @ e)))
        = Returned (c # d # rest)"
      by (simp add: undotted_dotted_append roundtrip_unit [OF c(1) False c(2)] e(2))
    ultimately show ?thesis by blast
  qed
qed

lemma surrogate_not_unescaped:
  "isLeadingSurrogate c \<or> isTrailingSurrogate c \<Longrightarrow> \<not> uriUnescaped c"
  using uriUnescaped_range [of c]
  by (auto simp: isLeadingSurrogate_def isTrailingSurrogate_def)

lemma ill_formed_throws:
  "list_all (\<lambda>u. u < 65536) s \<Longrightarrow> \<not> isWellFormed s
     \<Longrightarrow> encodeURIComponent s = Threw URIError"
proof (induction s rule: isWellFormed.induct)
  case 1
  then show ?case by simp
next
  case (2 c)
  then have "isLeadingSurrogate c \<or> isTrailingSurrogate c" by simp
  with surrogate_not_unescaped [OF this] show ?case by simp
next
  case (3 c d rest)
  from "3.prems"(1) have lt: "c < 65536" "list_all (\<lambda>u. u < 65536) rest"
    "list_all (\<lambda>u. u < 65536) (d # rest)" by simp_all
  show ?case
  proof (cases "isLeadingSurrogate c")
    case True
    note nu = surrogate_not_unescaped [OF disjI1 [OF True]]
    have nt: "\<not> isTrailingSurrogate c"
      using True by (auto simp: isLeadingSurrogate_def isTrailingSurrogate_def)
    show ?thesis
    proof (cases "isTrailingSurrogate d")
      case d: True
      with True "3.prems"(2) lt(1) have "\<not> isWellFormed rest" by simp
      from "3.IH"(1) [OF True lt(2) this] show ?thesis
        by (simp add: encode_pair [OF True d] del: encodeURIComponent.simps)
    next
      case False
      with True nu nt show ?thesis by simp
    qed
  next
    case False
    show ?thesis
    proof (cases "isTrailingSurrogate c")
      case True
      with surrogate_not_unescaped [OF disjI2 [OF True]] show ?thesis by simp
    next
      case nt: False
      with False "3.prems"(2) lt(1) have "\<not> isWellFormed (d # rest)" by simp
      from "3.IH"(2) [OF False lt(3) this] show ?thesis
        by (simp add: encode_unit [OF False nt] del: encodeURIComponent.simps)
    qed
  qed
qed

text \<open>
  C8. Decoding the dot-encoding of a string gives the string back, for every string
  without an unpaired surrogate. On any other string \<open>encodeHashComponent\<close> throws the
  \<open>URIError\<close> of \<open>encodeURIComponent\<close>, so there is nothing to decode.
\<close>

theorem hash_component_roundtrip:
  assumes "isString s"
  shows "decodeEncoded s = (if isWellFormed s then Returned s else Threw URIError)"
proof (cases "isWellFormed s")
  case True
  from roundtrip_uri [OF True] obtain e where
    e: "encodeURIComponent s = Returned e"
       "decodeURIComponent (undotted (dotted e)) = Returned s" by blast
  have "encodeHashComponent s = Returned (dotted e)"
    by (simp add: encodeHashComponent_def e(1) dotted_def)
  moreover have "decodeHashComponent (dotted e) = Returned s"
    using e(2) by (simp add: decodeHashComponent_def undotted_def)
  ultimately show ?thesis using True by (simp add: decodeEncoded_def)
next
  case False
  from assms have "list_all (\<lambda>u. u < 65536) s" by (simp add: isString_def)
  from ill_formed_throws [OF this False] False show ?thesis
    by (simp add: decodeEncoded_def encodeHashComponent_def)
qed

theorem hash_component_roundtrip_witness:
  "isString [116, 46, 40, 0x20AC, 0xD83D, 0xDE00]
   \<and> isWellFormed [116, 46, 40, 0x20AC, 0xD83D, 0xDE00]
   \<and> decodeEncoded [116, 46, 40, 0x20AC, 0xD83D, 0xDE00]
       = Returned [116, 46, 40, 0x20AC, 0xD83D, 0xDE00]"
proof -
  have h: "isString [116, 46, 40, 0x20AC, 0xD83D, 0xDE00]"
    by (simp add: isString_def)
  have w: "isWellFormed [116, 46, 40, 0x20AC, 0xD83D, 0xDE00]"
    by (simp add: isLeadingSurrogate_def isTrailingSurrogate_def)
  have "decodeEncoded [116, 46, 40, 0x20AC, 0xD83D, 0xDE00]
      = Returned [116, 46, 40, 0x20AC, 0xD83D, 0xDE00]"
    using hash_component_roundtrip [OF h] w by (simp only: if_True)
  with h w show ?thesis by blast
qed

text \<open>
  The string that consists of the single leading surrogate \<open>0xD800\<close> is not encoded at
  all, so the round trip does not give it back.
\<close>

theorem lone_surrogate_roundtrip_fails:
  "isString [0xD800]
   \<and> encodeHashComponent [0xD800] = Threw URIError
   \<and> decodeEncoded [0xD800] \<noteq> Returned [0xD800]"
  by (simp add: isString_def decodeEncoded_def encodeHashComponent_def uriUnescaped_def js_def
      isLeadingSurrogate_def isTrailingSurrogate_def)

section \<open>Properties of the message-list HTML\<close>

lemma mapOutcome_append:
  "mapOutcome f (xs @ ys) =
     (case mapOutcome f xs of
        Threw e \<Rightarrow> Threw e
      | Returned as \<Rightarrow>
          (case mapOutcome f ys of
             Threw e \<Rightarrow> Threw e
           | Returned bs \<Rightarrow> Returned (as @ bs)))"
  by (induction xs) (auto split: outcome.splits)

text \<open>
  C10. The HTML of a concatenation of element lists is the concatenation of the HTML of
  the two lists, with the same renderers, background data, narrow and translation function;
  the empty list renders to the empty string and a single element to its own rendering.
  So the renderings appear in the order of the elements.
\<close>

theorem messageListElementHtml_append:
  "messageListElementHtml time header message eu bg narrow (xs @ ys) gettext
     = concatOutcome (messageListElementHtml time header message eu bg narrow xs gettext)
                     (messageListElementHtml time header message eu bg narrow ys gettext)
   \<and> messageListElementHtml time header message eu bg narrow [] gettext = Returned []
   \<and> messageListElementHtml time header message eu bg narrow [x] gettext
       = elementHtml time header message eu bg gettext x"
proof -
  have "messageListElementHtml time header message eu bg narrow (xs @ ys) gettext
     = concatOutcome (messageListElementHtml time header message eu bg narrow xs gettext)
                     (messageListElementHtml time header message eu bg narrow ys gettext)"
    by (simp add: messageListElementHtml_def concatOutcome_def mapOutcome_append
        split: outcome.splits)
  moreover have "messageListElementHtml time header message eu bg narrow [] gettext
     = Returned []"
    by (simp add: messageListElementHtml_def)
  moreover have "messageListElementHtml time header message eu bg narrow [x] gettext
       = elementHtml time header message eu bg gettext x"
    by (simp add: messageListElementHtml_def split: outcome.splits)
  ultimately show ?thesis by simp
qed

section \<open>Order of dispatch\<close>

lemma actions_dispatch:
  "map call_action (concat (map (dispatch classify account) as))
     = filter (\<lambda>a. classify a \<noteq> None) as"
  by (induction as) (auto simp: dispatch_def split: option.splits)

lemma actions_deliverEvent:
  "map (call_action \<circ> call) (deliverEvent adapt classify account e)
     = filter (\<lambda>a. classify a \<noteq> None) (adapt e)"
  by (simp add: deliverEvent_def comp_def actions_dispatch)

lemma deliverEvent_source:
  "d \<in> set (deliverEvent adapt classify account e)
     \<Longrightarrow> from_account d = account \<and> from_event d = event_id e"
  by (auto simp: deliverEvent_def)

lemma filter_deliverEvent:
  "filter (\<lambda>d. from_account d = b) (deliverEvent adapt classify account e)
     = (if b = account then deliverEvent adapt classify account e else [])"
  by (auto simp: deliverEvent_def filter_map comp_def)

lemma serve_pendingInv:
  assumes "pendingInv adapt classify q0 account st"
  shows "pendingInv adapt classify q0 account (serve adapt classify b st)"
proof (cases "queues st b")
  case Nil
  then show ?thesis using assms by (simp add: serve_def)
next
  case (Cons e es)
  show ?thesis
  proof (cases "b = account")
    case True
    with Cons assms show ?thesis
      by (simp add: pendingInv_def serve_def deliveredFor_def filter_deliverEvent
          actions_deliverEvent expansion_def)
  next
    case False
    with Cons assms show ?thesis
      by (simp add: pendingInv_def serve_def deliveredFor_def filter_deliverEvent)
  qed
qed

lemma eventLoop_pendingInv:
  "pendingInv adapt classify q0 account st
     \<Longrightarrow> pendingInv adapt classify q0 account (eventLoop adapt classify schedule st)"
  by (induction schedule arbitrary: st) (simp_all add: serve_pendingInv)

lemma serve_idsInv:
  assumes "idsInv account st"
  shows "idsInv account (serve adapt classify b st)"
proof (cases "queues st b")
  case Nil
  then show ?thesis using assms by (simp add: serve_def)
next
  case (Cons e es)
  show ?thesis
  proof (cases "b = account")
    case True
    have src: "\<forall>d \<in> set (deliverEvent adapt classify account e). from_event d = event_id e"
      using deliverEvent_source by fastforce
    then have same: "map from_event (deliverEvent adapt classify account e)
        = replicate (length (deliverEvent adapt classify account e)) (event_id e)"
      by (simp add: map_replicate_const [symmetric] cong: map_cong)
    from True Cons assms src show ?thesis
      unfolding idsInv_def serve_def deliveredFor_def
      by (auto simp: filter_deliverEvent sorted_append same list_all_iff
          intro: less_imp_le)
  next
    case False
    with Cons assms show ?thesis
      by (simp add: idsInv_def serve_def deliveredFor_def filter_deliverEvent)
  qed
qed

lemma eventLoop_idsInv:
  "idsInv account st \<Longrightarrow> idsInv account (eventLoop adapt classify schedule st)"
  by (induction schedule arbitrary: st) (simp_all add: serve_idsInv)

text \<open>
  C6. Take one account whose stream has strictly increasing event ids, and any interleaving
  with the other streams. The actions delivered for the account, followed by what its
  pending events expand to, are the actions of its first event, then those of its second,
  and so on: nothing is reordered. The ids of the events behind the deliveries are in
  order.
\<close>

theorem order_preservation:
  assumes "sorted_wrt (<) (map event_id (q account))"
  shows "map (call_action \<circ> call)
           (deliveredFor account (eventLoop adapt classify schedule (initialState q)))
         @ expansion adapt classify
             (queues (eventLoop adapt classify schedule (initialState q)) account)
         = expansion adapt classify (q account)
       \<and> sorted (map from_event
           (deliveredFor account (eventLoop adapt classify schedule (initialState q))))"
proof -
  have "pendingInv adapt classify q account (initialState q)"
    by (simp add: pendingInv_def initialState_def deliveredFor_def)
  from eventLoop_pendingInv [OF this, of schedule]
  have 1: "pendingInv adapt classify q account
      (eventLoop adapt classify schedule (initialState q))" .
  have "idsInv account (initialState q)"
    using assms by (simp add: idsInv_def initialState_def deliveredFor_def)
  from eventLoop_idsInv [OF this, of adapt classify schedule]
  have 2: "idsInv account (eventLoop adapt classify schedule (initialState q))" .
  from 1 2 show ?thesis by (simp add: pendingInv_def idsInv_def)
qed

theorem order_preservation_witness:
  "sorted_wrt (<) (map event_id (sampleQueues 0))
   \<and> map (call_action \<circ> call)
        (deliveredFor 0 (eventLoop sampleAdapt sampleClassify [0, 1, 0]
                           (initialState sampleQueues)))
       = [10, 11, 20]
   \<and> expansion sampleAdapt sampleClassify (sampleQueues 0) = [10, 11, 20]
   \<and> sorted (map from_event
        (deliveredFor 0 (eventLoop sampleAdapt sampleClassify [0, 1, 0]
                           (initialState sampleQueues))))"
proof -
  have h: "sorted_wrt (<) (map event_id (sampleQueues 0))"
    by (simp add: sampleQueues_def)
  have q: "queues (eventLoop sampleAdapt sampleClassify [0, 1, 0]
      (initialState sampleQueues)) 0 = []"
    by (simp add: serve_def initialState_def sampleQueues_def)
  have e: "expansion sampleAdapt sampleClassify (sampleQueues 0) = [10, 11, 20]"
    by (simp add: expansion_def sampleQueues_def sampleAdapt_def sampleClassify_def)
  have n: "expansion sampleAdapt sampleClassify [] = []"
    by (simp add: expansion_def)
  note p = order_preservation [where q = sampleQueues and account = 0 and adapt = sampleAdapt
      and classify = sampleClassify and schedule = "[0, 1, 0]", OF h]
  from p have "map (call_action \<circ> call)
        (deliveredFor 0 (eventLoop sampleAdapt sampleClassify [0, 1, 0]
                           (initialState sampleQueues)))
       = [10, 11, 20]"
    unfolding q n e by (simp only: append_Nil2)
  with h e p show ?thesis by blast
qed

end
